theory Spec2Isabelle
  imports Complex_Main "HOL-Library.Multiset" "HOL-Library.List_Lexorder" "HOL-Library.Char_ord"
begin

section \<open>Values: errors, numbers and arrays\<close>

text \<open>
  The exceptions that the notebook code and the library calls it makes can raise. An
  exception aborts \<open>ensemble_models\<close>; it is the \<open>Inl\<close> branch of the result.
  \<open>RuntimeError\<close> is whatever an external routine raises.
\<close>

datatype error =
    IndexError
  | TypeError
  | ValueError
  | AxisError
  | FileNotFoundError
  | FileExistsError
  | NotADirectoryError
  | IsADirectoryError
  | RuntimeError string

text \<open>
  Array entries are float64 values: not-a-number, the two infinities, and the finite
  values, each with the real number it stands for (the two zeros are not told apart).
  An operation on finite values yields the exact result rounded. The rounding is a
  parameter \<open>rnd\<close>, from the exact result to the float64 value it becomes, an infinity
  when it is out of range. Nothing is assumed of \<open>rnd\<close>: what is proved holds for every
  rounding, and no sum is taken to be independent of the order of its summands.
\<close>

datatype float64 = NaN | PInf | NInf | Fin real

fun fadd :: "(real \<Rightarrow> float64) \<Rightarrow> float64 \<Rightarrow> float64 \<Rightarrow> float64" where
  "fadd rnd (Fin x) (Fin y) = rnd (x + y)"
| "fadd rnd NaN b = NaN"
| "fadd rnd a NaN = NaN"
| "fadd rnd PInf NInf = NaN"
| "fadd rnd NInf PInf = NaN"
| "fadd rnd PInf b = PInf"
| "fadd rnd a PInf = PInf"
| "fadd rnd NInf b = NInf"
| "fadd rnd a NInf = NInf"

text \<open>
  \<open>np.add.reduce\<close> along the first axis: the summands are added one after the other,
  from the first on; the empty sum is 0.
\<close>

definition fsum :: "(real \<Rightarrow> float64) \<Rightarrow> float64 list \<Rightarrow> float64" where
  "fsum rnd xs = (case xs of [] \<Rightarrow> Fin 0 | x # rest \<Rightarrow> foldl (fadd rnd) x rest)"

text \<open>
  Division of a sum by the number of summands. A finite sum divided by 0 is \<open>NaN\<close> when
  it is 0 and an infinity otherwise.
\<close>

definition fdiv_count :: "(real \<Rightarrow> float64) \<Rightarrow> float64 \<Rightarrow> nat \<Rightarrow> float64" where
  "fdiv_count rnd s k =
     (case s of
        NaN \<Rightarrow> NaN
      | PInf \<Rightarrow> PInf
      | NInf \<Rightarrow> NInf
      | Fin x \<Rightarrow>
          if k = 0 then (if x = 0 then NaN else if 0 < x then PInf else NInf)
          else rnd (x / real k))"

text \<open>
  A value is a float64 value under the rounding \<open>rnd\<close>: rounding leaves it as it is.
  Every entry of an array is one.
\<close>

definition representable :: "(real \<Rightarrow> float64) \<Rightarrow> float64 \<Rightarrow> bool" where
  "representable rnd v = (case v of Fin x \<Rightarrow> rnd x = Fin x | _ \<Rightarrow> True)"

text \<open>
  A numpy array: its shape and its entries in row-major order. A 0-dimensional array
  (a scalar) has shape \<open>[]\<close> and one entry.
\<close>

record ndarray =
  shape :: "nat list"
  data :: "float64 list"

definition valid_ndarray :: "ndarray \<Rightarrow> bool" where
  "valid_ndarray a = (length (data a) = prod_list (shape a))"

text \<open>
  \<open>np.asarray\<close> on a Python list of arrays, as \<open>np.mean\<close> applies it to
  \<open>predictions\<close>: the empty list is the array of shape \<open>(0,)\<close>; arrays of one shape are
  stacked along a new first axis; arrays of different shapes are refused (as NumPy does
  from version 1.24 on; no claim here depends on that case).
\<close>

definition np_asarray :: "ndarray list \<Rightarrow> error + ndarray" where
  "np_asarray arrs =
     (case arrs of
        [] \<Rightarrow> Inr \<lparr>shape = [0], data = []\<rparr>
      | a # rest \<Rightarrow>
          if list_all (\<lambda>b. shape b = shape a) rest
          then Inr \<lparr>shape = length arrs # shape a, data = concat (map data arrs)\<rparr>
          else Inl ValueError)"

text \<open>\<open>mean(axis=0)\<close> of an array: the first axis is averaged away.\<close>

definition np_mean_axis0 :: "(real \<Rightarrow> float64) \<Rightarrow> ndarray \<Rightarrow> error + ndarray" where
  "np_mean_axis0 rnd a =
     (case shape a of
        [] \<Rightarrow> Inl AxisError
      | k # s \<Rightarrow>
          (let m = prod_list s
           in Inr \<lparr>shape = s,
                   data = map (\<lambda>j. fdiv_count rnd
                                        (fsum rnd (map (\<lambda>i. data a ! (i * m + j)) [0..<k])) k)
                              [0..<m]\<rparr>))"

text \<open>\<open>np.mean(predictions, axis=0)\<close>.\<close>

definition np_mean :: "(real \<Rightarrow> float64) \<Rightarrow> ndarray list \<Rightarrow> error + ndarray" where
  "np_mean rnd arrs =
     (case np_asarray arrs of Inl e \<Rightarrow> Inl e | Inr a \<Rightarrow> np_mean_axis0 rnd a)"

section \<open>Paths\<close>

text \<open>
  \<open>pathlib\<close> paths in the POSIX flavour: a root (\<open>''''\<close>, \<open>''/''\<close> or \<open>''//''\<close>) and
  the components after it. Empty components and \<open>.\<close> are dropped when a string is
  parsed; \<open>..\<close> is kept.
\<close>

record pure_path =
  path_root :: string
  path_parts :: "string list"

text \<open>\<open>str.split('/')\<close>.\<close>

fun split_sep :: "string \<Rightarrow> string list" where
  "split_sep [] = [[]]"
| "split_sep (c # cs) =
     (if c = CHR ''/'' then [] # split_sep cs
      else (case split_sep cs of [] \<Rightarrow> [[c]] | w # ws \<Rightarrow> (c # w) # ws))"

definition splitroot :: "string \<Rightarrow> string \<times> string" where
  "splitroot part =
     (if part \<noteq> [] \<and> hd part = CHR ''/'' then
        (let stripped_part = dropWhile (\<lambda>c. c = CHR ''/'') part
         in if length part - length stripped_part = 2 then (''//'', stripped_part)
            else (''/'', stripped_part))
      else ('''', part))"

text \<open>\<open>Path(s)\<close> for a string \<open>s\<close>.\<close>

definition Path :: "string \<Rightarrow> pure_path" where
  "Path s =
     (case splitroot s of
        (r, rel) \<Rightarrow>
          \<lparr>path_root = r,
           path_parts = filter (\<lambda>x. x \<noteq> [] \<and> x \<noteq> ''.'') (split_sep rel)\<rparr>)"

text \<open>\<open>p / key\<close>: a rooted right operand replaces the left one.\<close>

definition truediv :: "pure_path \<Rightarrow> string \<Rightarrow> pure_path" where
  "truediv p key =
     (let q = Path key
      in if path_root q \<noteq> [] then q
         else \<lparr>path_root = path_root p, path_parts = path_parts p @ path_parts q\<rparr>)"

definition name :: "pure_path \<Rightarrow> string" where
  "name p = (if path_parts p = [] then [] else last (path_parts p))"

text \<open>\<open>str.rfind\<close> of one character: the last index where it occurs, or \<open>-1\<close>.\<close>

fun rfind :: "char \<Rightarrow> string \<Rightarrow> int" where
  "rfind c [] = -1"
| "rfind c (x # xs) =
     (let r = rfind c xs
      in if 0 \<le> r then r + 1 else if x = c then 0 else -1)"

definition stem :: "pure_path \<Rightarrow> string" where
  "stem p =
     (let nm = name p; i = rfind CHR ''.'' nm
      in if 0 < i \<and> i < int (length nm) - 1 then take (nat i) nm else nm)"

definition parent :: "pure_path \<Rightarrow> pure_path" where
  "parent p = (if path_parts p = [] then p else p\<lparr>path_parts := butlast (path_parts p)\<rparr>)"

section \<open>The file system\<close>

text \<open>
  A file holds a saved array or something \<open>np.load\<close> cannot read. The file system maps a
  path to what is there; paths are identified as \<open>pathlib\<close> writes them (links and \<open>..\<close>
  are not resolved). A path without components (the root, or the working directory) is
  always a directory.
\<close>

datatype node = Dir | Npy ndarray | Unreadable

type_synonym filesystem = "pure_path \<rightharpoonup> node"

definition node_at :: "filesystem \<Rightarrow> pure_path \<Rightarrow> node option" where
  "node_at f p = (if path_parts p = [] then Some Dir else f p)"

definition path_exists :: "filesystem \<Rightarrow> pure_path \<Rightarrow> bool" where
  "path_exists f p = (node_at f p \<noteq> None)"

definition is_dir :: "filesystem \<Rightarrow> pure_path \<Rightarrow> bool" where
  "is_dir f p = (node_at f p = Some Dir)"

text \<open>\<open>os.mkdir\<close>: the parent must be a directory and the path must be free.\<close>

definition os_mkdir :: "pure_path \<Rightarrow> filesystem \<Rightarrow> error + filesystem" where
  "os_mkdir p f =
     (case node_at f (parent p) of
        None \<Rightarrow> Inl FileNotFoundError
      | Some Dir \<Rightarrow> if path_exists f p then Inl FileExistsError else Inr (f(p \<mapsto> Dir))
      | Some _ \<Rightarrow> Inl NotADirectoryError)"

text \<open>
  \<open>Path.mkdir(exist_ok=True, parents=True)\<close>: on a missing parent, create the parent the
  same way and try again; any other failure is forgiven when the path is a directory.
\<close>

function path_mkdir :: "pure_path \<Rightarrow> filesystem \<Rightarrow> error + filesystem" where
  "path_mkdir p f =
     (case os_mkdir p f of
        Inr f' \<Rightarrow> Inr f'
      | Inl e \<Rightarrow>
          if e = FileNotFoundError then
            (if parent p = p then Inl e
             else (case path_mkdir (parent p) f of
                     Inl e' \<Rightarrow> Inl e'
                   | Inr f' \<Rightarrow>
                       (case os_mkdir p f' of
                          Inr f'' \<Rightarrow> Inr f''
                        | Inl e' \<Rightarrow> if is_dir f' p then Inr f' else Inl e')))
          else if is_dir f p then Inr f else Inl e)"
  by pat_completeness auto
termination
proof (relation "measure (\<lambda>(p, f). length (path_parts p))")
  show "wf (measure (\<lambda>(p, f). length (path_parts p)))" by simp
next
  fix p :: pure_path and f :: filesystem and e :: error
  assume "parent p \<noteq> p"
  then have "path_parts p \<noteq> []" by (auto simp: parent_def)
  then show "((parent p, f), (p, f)) \<in> measure (\<lambda>(p, f). length (path_parts p))"
    by (simp add: parent_def)
qed

declare path_mkdir.simps [simp del]

text \<open>\<open>np.load\<close> of a path.\<close>

definition np_load :: "filesystem \<Rightarrow> pure_path \<Rightarrow> error + ndarray" where
  "np_load f p =
     (case node_at f p of
        None \<Rightarrow> Inl FileNotFoundError
      | Some Dir \<Rightarrow> Inl IsADirectoryError
      | Some Unreadable \<Rightarrow> Inl ValueError
      | Some (Npy a) \<Rightarrow> Inr a)"

text \<open>
  \<open>np.save\<close> to a path ending in \<open>.npy\<close>: the file is opened for writing, which needs
  its directory to exist, and is replaced by the array.
\<close>

definition np_save :: "filesystem \<Rightarrow> pure_path \<Rightarrow> ndarray \<Rightarrow> error + filesystem" where
  "np_save f p arr =
     (case node_at f (parent p) of
        None \<Rightarrow> Inl FileNotFoundError
      | Some Dir \<Rightarrow> if is_dir f p then Inl IsADirectoryError else Inr (f(p \<mapsto> Npy arr))
      | Some _ \<Rightarrow> Inl NotADirectoryError)"

section \<open>The notebook's ensembling routine\<close>

text \<open>
  What \<open>ensemble_models\<close> does to the world outside it, in order: the calls of the
  external routines \<open>make\<close> and \<open>run_softmax_eval\<close>, the file-system calls, and the
  lines printed.
\<close>

datatype event =
    CallMake string string
  | CallExists pure_path
  | CallLoad pure_path
  | CallRunSoftmaxEval string
  | CallMkdir pure_path
  | CallSave pure_path
  | Print string

record world =
  fs :: filesystem
  events :: "event list"

definition log :: "event \<Rightarrow> world \<Rightarrow> world" where
  "log e w = w\<lparr>events := events w @ [e]\<rparr>"

text \<open>
  The two external routines are parameters: \<open>make\<close> maps a checkpoint path and the data
  path to a model and a loader, \<open>run_softmax_eval\<close> maps these, the labels and the
  template pair to a prediction matrix. Either may raise. They are functions of their
  arguments and leave the cache files alone. Both live in the module \<open>zero_shot\<close>, which
  is not among the sources. The parameter for \<open>make\<close> is written \<open>make'\<close>.
\<close>

type_synonym ('m, 'l) make_fn = "string \<Rightarrow> string \<Rightarrow> error + ('m \<times> 'l)"

type_synonym ('m, 'l) run_softmax_eval_fn =
  "'m \<Rightarrow> 'l \<Rightarrow> string list \<Rightarrow> string \<times> string \<Rightarrow> error + ndarray"

text \<open>
  The cache path of a checkpoint, for a cache directory that is given
  (source lines 136 to 140).
\<close>

definition cache_path_of :: "string \<Rightarrow> string option \<Rightarrow> string \<Rightarrow> pure_path" where
  "cache_path_of cache_dir save_name model_name =
     (case save_name of
        Some sn \<Rightarrow> truediv (Path cache_dir) (sn @ ''_'' @ model_name @ ''.npy'')
      | None \<Rightarrow> truediv (Path cache_dir) (model_name @ ''.npy''))"

text \<open>
  The \<open>else\<close> branch of the loop body (source lines 146 to 151): infer, and with a cache
  directory create it and save the prediction.
\<close>

definition infer_and_cache ::
  "('m, 'l) run_softmax_eval_fn \<Rightarrow> string list \<Rightarrow> string \<times> string \<Rightarrow> string option \<Rightarrow>
   string option \<Rightarrow> string \<Rightarrow> 'm \<Rightarrow> 'l \<Rightarrow> world \<Rightarrow> (error + ndarray) \<times> world" where
  "infer_and_cache run_softmax_eval cxr_labels cxr_pair_template cache_dir save_name path
     model loader w =
     (let w1 = log (Print (''Inferring model '' @ path)) w;
          w2 = log (CallRunSoftmaxEval path) w1
      in case run_softmax_eval model loader cxr_labels cxr_pair_template of
           Inl e \<Rightarrow> (Inl e, w2)
         | Inr y_pred \<Rightarrow>
             (case cache_dir of
                None \<Rightarrow> (Inr y_pred, w2)
              | Some cd \<Rightarrow>
                  (let w3 = log (CallMkdir (Path cd)) w2
                   in case path_mkdir (Path cd) (fs w3) of
                        Inl e \<Rightarrow> (Inl e, w3)
                      | Inr f \<Rightarrow>
                          (let cache_path = cache_path_of cd save_name (stem (Path path));
                               w4 = log (CallSave cache_path) (w3\<lparr>fs := f\<rparr>)
                           in case np_save (fs w4) cache_path y_pred of
                                Inl e \<Rightarrow> (Inl e, w4)
                              | Inr f' \<Rightarrow> (Inr y_pred, w4\<lparr>fs := f'\<rparr>)))))"

text \<open>The loop body for one checkpoint path (source lines 127 to 151).\<close>

definition loop_body ::
  "('m, 'l) make_fn \<Rightarrow> ('m, 'l) run_softmax_eval_fn \<Rightarrow> string \<Rightarrow> string list \<Rightarrow>
   string \<times> string \<Rightarrow> string option \<Rightarrow> string option \<Rightarrow> string \<Rightarrow> world \<Rightarrow>
   (error + ndarray) \<times> world" where
  "loop_body make' run_softmax_eval cxr_filepath cxr_labels cxr_pair_template cache_dir
     save_name path w =
     (let model_name = stem (Path path);
          w1 = log (CallMake path cxr_filepath) w
      in case make' path cxr_filepath of
           Inl e \<Rightarrow> (Inl e, w1)
         | Inr (model, loader) \<Rightarrow>
             (case cache_dir of
                None \<Rightarrow>
                  infer_and_cache run_softmax_eval cxr_labels cxr_pair_template cache_dir
                    save_name path model loader w1
              | Some cd \<Rightarrow>
                  (let cache_path = cache_path_of cd save_name model_name;
                       w2 = log (CallExists cache_path) w1
                   in if path_exists (fs w2) cache_path then
                        (let w3 = log (Print (''Loading cached prediction for '' @ model_name)) w2;
                             w4 = log (CallLoad cache_path) w3
                         in (np_load (fs w4) cache_path, w4))
                      else
                        infer_and_cache run_softmax_eval cxr_labels cxr_pair_template cache_dir
                          save_name path model loader w2)))"

text \<open>The \<open>for\<close> loop over the sorted paths, appending to \<open>predictions\<close>.\<close>

fun for_loop ::
  "('m, 'l) make_fn \<Rightarrow> ('m, 'l) run_softmax_eval_fn \<Rightarrow> string \<Rightarrow> string list \<Rightarrow>
   string \<times> string \<Rightarrow> string option \<Rightarrow> string option \<Rightarrow> string list \<Rightarrow> ndarray list \<Rightarrow>
   world \<Rightarrow> (error + ndarray list) \<times> world" where
  "for_loop make' run_softmax_eval cxr_filepath cxr_labels cxr_pair_template cache_dir
     save_name [] predictions w = (Inr predictions, w)"
| "for_loop make' run_softmax_eval cxr_filepath cxr_labels cxr_pair_template cache_dir
     save_name (path # rest) predictions w =
     (case loop_body make' run_softmax_eval cxr_filepath cxr_labels cxr_pair_template
             cache_dir save_name path w of
        (Inl e, w') \<Rightarrow> (Inl e, w')
      | (Inr y_pred, w') \<Rightarrow>
          for_loop make' run_softmax_eval cxr_filepath cxr_labels cxr_pair_template cache_dir
            save_name rest (predictions @ [y_pred]) w')"

text \<open>
  \<open>ensemble_models\<close> (source lines 108 to 155). Python's \<open>sorted\<close> on strings is
  \<open>sort\<close> in the lexicographic order of the characters. The rounding of the arithmetic
  in \<open>np.mean\<close> is the first parameter.
\<close>

definition ensemble_models ::
  "(real \<Rightarrow> float64) \<Rightarrow> ('m, 'l) make_fn \<Rightarrow> ('m, 'l) run_softmax_eval_fn \<Rightarrow> string list \<Rightarrow> string \<Rightarrow>
   string list \<Rightarrow> string \<times> string \<Rightarrow> string option \<Rightarrow> string option \<Rightarrow> world \<Rightarrow>
   (error + ndarray list \<times> ndarray) \<times> world" where
  "ensemble_models rnd make' run_softmax_eval model_paths cxr_filepath cxr_labels
     cxr_pair_template cache_dir save_name w =
     (case for_loop make' run_softmax_eval cxr_filepath cxr_labels cxr_pair_template
             cache_dir save_name (sort model_paths) [] w of
        (Inl e, w') \<Rightarrow> (Inl e, w')
      | (Inr predictions, w') \<Rightarrow>
          (case np_mean rnd predictions of
             Inl e \<Rightarrow> (Inl e, w')
           | Inr y_pred_avg \<Rightarrow> (Inr (predictions, y_pred_avg), w')))"

section \<open>The notebook's constants\<close>

text \<open>The values the notebook binds in its cell of directories and constants.\<close>

definition nb_cxr_filepath :: string where
  "nb_cxr_filepath = ''../data/cxr.h5''"

definition nb_cache_dir :: string where
  "nb_cache_dir = ''../predictions/ensembled''"

definition nb_cxr_labels :: "string list" where
  "nb_cxr_labels =
     [''Atelectasis'', ''Cardiomegaly'', ''Consolidation'', ''Edema'',
      ''Enlarged Cardiomediastinum'', ''Fracture'', ''Lung Lesion'', ''Lung Opacity'',
      ''No Finding'', ''Pleural Effusion'', ''Pleural Other'', ''Pneumonia'',
      ''Pneumothorax'', ''Support Devices'']"

definition nb_cxr_pair_template :: "string \<times> string" where
  "nb_cxr_pair_template = (''{}'', ''no {}'')"

text \<open>\<open>model_paths\<close> as the notebook printed it: nothing was found under \<open>model_dir\<close>.\<close>

definition nb_model_paths :: "string list" where
  "nb_model_paths = []"

text \<open>
  Stand-ins for the external routines, for running the model on concrete inputs: the
  model is the checkpoint path, the loader is the data path, and the prediction is one
  row with one entry per label.
\<close>

definition demo_make :: "(string, string) make_fn" where
  "demo_make model_path cxr_filepath = Inr (model_path, cxr_filepath)"

definition demo_run_softmax_eval :: "(string, string) run_softmax_eval_fn" where
  "demo_run_softmax_eval model loader cxr_labels cxr_pair_template =
     Inr \<lparr>shape = [1, length cxr_labels],
          data = map (\<lambda>i. Fin (real (length model + i))) [0..<length cxr_labels]\<rparr>"

text \<open>
  A stand-in for the rounding, for inputs all of whose sums and quotients are float64
  values: it rounds nothing.
\<close>

definition exact_rounding :: "real \<Rightarrow> float64" where
  "exact_rounding x = Fin x"

definition empty_world :: world where
  "empty_world = \<lparr>fs = Map.empty, events = []\<rparr>"

section \<open>Observations on a run\<close>

text \<open>The checkpoint paths \<open>make\<close> was called with, in order.\<close>

fun make_calls :: "event list \<Rightarrow> string list" where
  "make_calls [] = []"
| "make_calls (CallMake p f # es) = p # make_calls es"
| "make_calls (_ # es) = make_calls es"

text \<open>The checkpoint paths whose model was run through \<open>run_softmax_eval\<close>, in order.\<close>

fun inference_calls :: "event list \<Rightarrow> string list" where
  "inference_calls [] = []"
| "inference_calls (CallRunSoftmaxEval p # es) = p # inference_calls es"
| "inference_calls (_ # es) = inference_calls es"

text \<open>
  A checkpoint is cached with prediction \<open>y\<close>: its cache file holds \<open>y\<close> and \<open>make\<close>
  succeeds on it.
\<close>

definition cached ::
  "('m, 'l) make_fn \<Rightarrow> string \<Rightarrow> string \<Rightarrow> string option \<Rightarrow> filesystem \<Rightarrow> string \<Rightarrow>
   ndarray \<Rightarrow> bool" where
  "cached mk fp cd sn f p y =
     (node_at f (cache_path_of cd sn (stem (Path p))) = Some (Npy y) \<and>
      (\<exists>m l. mk p fp = Inr (m, l)))"

text \<open>A run tag that names no directory: it is absent or has no separator in it.\<close>

definition flat_name :: "string option \<Rightarrow> bool" where
  "flat_name save_name = (case save_name of None \<Rightarrow> True | Some sn \<Rightarrow> CHR ''/'' \<notin> set sn)"

text \<open>The file name the f-strings of source lines 138 and 140 build.\<close>

definition cache_file_name :: "string option \<Rightarrow> string \<Rightarrow> string" where
  "cache_file_name save_name model_name =
     (case save_name of None \<Rightarrow> model_name @ ''.npy''
      | Some sn \<Rightarrow> sn @ ''_'' @ model_name @ ''.npy'')"

text \<open>
  More stand-ins: an inference routine that always raises, a matrix whose shape fits no
  label list used here, and a world where that matrix is already cached for the
  checkpoint \<open>model\<close>.
\<close>

definition broken_run_softmax_eval :: "(string, string) run_softmax_eval_fn" where
  "broken_run_softmax_eval model loader cxr_labels cxr_pair_template
     = Inl (RuntimeError ''inference invoked'')"

definition stale_prediction :: ndarray where
  "stale_prediction = \<lparr>shape = [2, 3], data = [Fin 1, Fin 2, Fin 3, Fin 4, Fin 5, Fin 6]\<rparr>"

definition warm_world :: world where
  "warm_world =
     \<lparr>fs = [\<lparr>path_root = [], path_parts = [''..'']\<rparr> \<mapsto> Dir,
            \<lparr>path_root = [], path_parts = [''..'', ''predictions'']\<rparr> \<mapsto> Dir,
            \<lparr>path_root = [], path_parts = [''..'', ''predictions'', ''ensembled'']\<rparr> \<mapsto> Dir,
            \<lparr>path_root = [], path_parts = [''..'', ''predictions'', ''ensembled'', ''model.npy'']\<rparr>
              \<mapsto> Npy stale_prediction],
      events = []\<rparr>"

section \<open>The statistical evaluator\<close>

text \<open>
  \<open>evaluate\<close> and \<open>bootstrap\<close> are imported from the module \<open>eval\<close>, which is not among
  the sources. The notebook shows of them the two calls (source lines 237 and 240), the
  names of the result columns (the printed summary, \<open>Atelectasis_auc\<close> and so on) and,
  in the recorded traceback, the first statements of \<open>evaluate\<close>:
  \<^verbatim>\<open>num_classes = y_pred.shape[-1]\<close>, \<^verbatim>\<open>dataframes = []\<close>,
  \<^verbatim>\<open>for i in range(num_classes):\<close>. Everything else follows the specification.
\<close>

text \<open>
  \<open>a[:, i]\<close> for a 2-dimensional array. An array of fewer dimensions has no second axis
  to index; one of more dimensions yields no vector of scores.
\<close>

definition column :: "ndarray \<Rightarrow> nat \<Rightarrow> error + float64 list" where
  "column a i =
     (case shape a of
        [] \<Rightarrow> Inl IndexError
      | [n] \<Rightarrow> Inl IndexError
      | [n, m] \<Rightarrow>
          if i < m then Inr (map (\<lambda>r. data a ! (r * m + i)) [0..<n]) else Inl IndexError
      | _ \<Rightarrow> Inl ValueError)"

text \<open>
  \<open>a[sample]\<close> for a list of row indices: the rows of \<open>a\<close> at these indices, in that
  order. A 0-dimensional array cannot be indexed.
\<close>

definition take_rows :: "ndarray \<Rightarrow> nat list \<Rightarrow> error + ndarray" where
  "take_rows a sample =
     (case shape a of
        [] \<Rightarrow> Inl IndexError
      | n # rest \<Rightarrow>
          if list_all (\<lambda>r. r < n) sample then
            (let m = prod_list rest
             in Inr \<lparr>shape = length sample # rest,
                     data = concat (map (\<lambda>r. take m (drop (r * m) (data a))) sample)\<rparr>)
          else Inl IndexError)"

text \<open>
  Modelled from the spec: the comparison of one positive with one negative example in
  the Wilcoxon-Mann-Whitney statistic, which \<open>eval\<close> takes from a library. The positive
  ranked above the negative counts 1, a tie one half.
\<close>

fun pair_score :: "float64 \<Rightarrow> float64 \<Rightarrow> real" where
  "pair_score (Fin p) (Fin n) = (if n < p then 1 else if p = n then 1 / 2 else 0)"
| "pair_score _ _ = 0"

text \<open>
  Modelled from the spec: the AUC of a column of scores against a column of ground truth,
  computed in \<open>eval\<close> by a library. It is the Wilcoxon-Mann-Whitney statistic over the
  positive (ground truth 1) and the negative examples, and the sentinel \<open>NaN\<close> when the
  ground truth holds one class only.
\<close>

definition auc :: "float64 list \<Rightarrow> float64 list \<Rightarrow> error + float64" where
  "auc y_true_i y_pred_i =
     (if length y_true_i \<noteq> length y_pred_i then Inl ValueError
      else
        (let pos = map snd (filter (\<lambda>(t, s). t = Fin 1) (zip y_true_i y_pred_i));
             neg = map snd (filter (\<lambda>(t, s). t \<noteq> Fin 1) (zip y_true_i y_pred_i))
         in if pos = [] \<or> neg = [] then Inr NaN
            else Inr (Fin (sum_list (map (\<lambda>p. sum_list (map (pair_score p) neg)) pos)
                            / real (length pos * length neg)))))"

text \<open>
  Modelled from the spec: the AUC of label index \<open>i\<close> in \<open>evaluate\<close> of \<open>eval\<close>,
  \<open>AUC(predictions[:, i], truth[:, i])\<close>.
\<close>

definition column_auc :: "ndarray \<Rightarrow> ndarray \<Rightarrow> nat \<Rightarrow> error + float64" where
  "column_auc y_pred y_true i =
     (case column y_true i of
        Inl e \<Rightarrow> Inl e
      | Inr y_true_i \<Rightarrow>
          (case column y_pred i of
             Inl e \<Rightarrow> Inl e
           | Inr y_pred_i \<Rightarrow> auc y_true_i y_pred_i))"

text \<open>One row of AUC values: the column names with their values.\<close>

type_synonym auc_table = "(string \<times> float64) list"

text \<open>
  Modelled from the spec: the body of the loop of \<open>evaluate\<close> in \<open>eval\<close>, of which the
  notebook shows the header only. For each label index the AUC of the prediction column
  against the ground-truth column is computed and becomes the column
  \<open>label_auc\<close> of the result.
\<close>

fun eval_columns ::
  "ndarray \<Rightarrow> ndarray \<Rightarrow> string list \<Rightarrow> nat list \<Rightarrow> auc_table \<Rightarrow> error + auc_table" where
  "eval_columns y_pred y_true cxr_labels [] dataframes = Inr dataframes"
| "eval_columns y_pred y_true cxr_labels (i # rest) dataframes =
     (case column_auc y_pred y_true i of
        Inl e \<Rightarrow> Inl e
      | Inr roc_auc \<Rightarrow>
          if i < length cxr_labels then
            eval_columns y_pred y_true cxr_labels rest
              (dataframes @ [(cxr_labels ! i @ ''_auc'', roc_auc)])
          else Inl IndexError)"

text \<open>
  \<open>evaluate\<close>. Its head is the one the traceback shows: the number of classes is
  \<open>y_pred.shape[-1]\<close>, which raises \<open>IndexError\<close> on a 0-dimensional array, and the loop
  runs over \<open>range(num_classes)\<close>.
\<close>

definition evaluate :: "ndarray \<Rightarrow> ndarray \<Rightarrow> string list \<Rightarrow> error + auc_table" where
  "evaluate y_pred y_true cxr_labels =
     (case shape y_pred of
        [] \<Rightarrow> Inl IndexError
      | d # ds \<Rightarrow>
          (let num_classes = last (d # ds)
           in eval_columns y_pred y_true cxr_labels [0..<num_classes] []))"

text \<open>
  Modelled from the spec: the draw of a bootstrap sample in \<open>bootstrap\<close> of \<open>eval\<close>:
  \<open>k\<close> row indices below \<open>n\<close>, each from the next output of the generator.
\<close>

fun draw_indices :: "('g \<Rightarrow> nat \<times> 'g) \<Rightarrow> nat \<Rightarrow> nat \<Rightarrow> 'g \<Rightarrow> nat list \<times> 'g" where
  "draw_indices rng_next n 0 g = ([], g)"
| "draw_indices rng_next n (Suc k) g =
     (case rng_next g of
        (r, g1) \<Rightarrow>
          (case draw_indices rng_next n k g1 of
             (sample, g2) \<Rightarrow> (r mod n # sample, g2)))"

text \<open>
  Modelled from the spec: the resampling loop of \<open>bootstrap\<close> in \<open>eval\<close>. Each iteration
  draws as many row indices as the predictions have rows, with replacement, takes these
  rows of the predictions and of the ground truth, runs \<open>evaluate\<close> on them and records
  the row of AUC values.
\<close>

fun boot_loop ::
  "('g \<Rightarrow> nat \<times> 'g) \<Rightarrow> ndarray \<Rightarrow> ndarray \<Rightarrow> string list \<Rightarrow> nat \<Rightarrow> nat \<Rightarrow> 'g \<Rightarrow>
   auc_table list \<Rightarrow> (error + auc_table list) \<times> 'g" where
  "boot_loop rng_next y_pred y_true cxr_labels n 0 g boot_stats = (Inr boot_stats, g)"
| "boot_loop rng_next y_pred y_true cxr_labels n (Suc k) g boot_stats =
     (case draw_indices rng_next n n g of
        (sample, g') \<Rightarrow>
          (case take_rows y_pred sample of
             Inl e \<Rightarrow> (Inl e, g')
           | Inr y_pred_sample \<Rightarrow>
               (case take_rows y_true sample of
                  Inl e \<Rightarrow> (Inl e, g')
                | Inr y_true_sample \<Rightarrow>
                    (case evaluate y_pred_sample y_true_sample cxr_labels of
                       Inl e \<Rightarrow> (Inl e, g')
                     | Inr sample_stats \<Rightarrow>
                         boot_loop rng_next y_pred y_true cxr_labels n k g'
                           (boot_stats @ [sample_stats])))))"

text \<open>
  Modelled from the spec: the mean of a column of the bootstrap table, absent from the
  sources with \<open>eval\<close>: the sum of the values divided by their number. A \<open>NaN\<close> among
  the values makes the mean \<open>NaN\<close>.
\<close>

definition mean_of :: "(real \<Rightarrow> float64) \<Rightarrow> float64 list \<Rightarrow> float64" where
  "mean_of rnd vs = fdiv_count rnd (fsum rnd vs) (length vs)"

fun fin_value :: "float64 \<Rightarrow> real" where
  "fin_value (Fin x) = x"
| "fin_value v = 0"

text \<open>
  Modelled from the spec: the empirical percentile of a column of the bootstrap table at
  the fraction \<open>q\<close>, absent from the sources with \<open>eval\<close>. It interpolates linearly
  between the two nearest of the sorted values; a \<open>NaN\<close> among the values is propagated.
\<close>

definition percentile :: "float64 list \<Rightarrow> real \<Rightarrow> float64" where
  "percentile vs q =
     (if vs = [] \<or> NaN \<in> set vs then NaN
      else
        (let s = sort (map fin_value vs);
             h = q * real (length s - 1);
             k = nat \<lfloor>h\<rfloor>
         in if k + 1 < length s then Fin (s ! k + (h - real k) * (s ! (k + 1) - s ! k))
            else Fin (last s)))"

text \<open>The summary: for each column its name, mean, lower and upper bound.\<close>

type_synonym summary = "(string \<times> float64 \<times> float64 \<times> float64) list"

text \<open>
  Modelled from the spec: the condensed table of \<open>bootstrap\<close> in \<open>eval\<close>: per label
  column the mean and the percentiles at \<open>(1 - confidence) / 2\<close> and
  \<open>1 - (1 - confidence) / 2\<close> over the resampled values.
\<close>

definition summarize :: "(real \<Rightarrow> float64) \<Rightarrow> auc_table list \<Rightarrow> real \<Rightarrow> summary" where
  "summarize rnd boot_stats confidence =
     (case boot_stats of
        [] \<Rightarrow> []
      | first # _ \<Rightarrow>
          map (\<lambda>j. (let vs = map (\<lambda>row. snd (row ! j)) boot_stats
                    in (fst (first ! j), mean_of rnd vs,
                        percentile vs ((1 - confidence) / 2),
                        percentile vs (1 - (1 - confidence) / 2))))
              [0..<length first])"

text \<open>
  Modelled from the spec: \<open>bootstrap\<close> of \<open>eval\<close>, of which the notebook shows the call
  only. The random source is a parameter: \<open>rng_seed\<close> makes a generator from a seed and
  \<open>rng_next\<close> draws from one. With an explicit seed the resampling uses a generator of
  its own made from the seed; without one it uses and advances the ambient generator,
  which is part of the state and is returned. The result is the table of all iterations
  and its summary. The rounding of the arithmetic in the mean is the first parameter.
\<close>

definition bootstrap ::
  "(real \<Rightarrow> float64) \<Rightarrow> (nat \<Rightarrow> 'g) \<Rightarrow> ('g \<Rightarrow> nat \<times> 'g) \<Rightarrow> ndarray \<Rightarrow> ndarray \<Rightarrow> string list \<Rightarrow> nat \<Rightarrow> real \<Rightarrow>
   nat option \<Rightarrow> 'g \<Rightarrow> (error + auc_table list \<times> summary) \<times> 'g" where
  "bootstrap rnd rng_seed rng_next y_pred y_true cxr_labels n_iterations confidence seed
     ambient =
     (case shape y_pred of
        [] \<Rightarrow> (Inl TypeError, ambient)
      | n # ds \<Rightarrow>
          (let g0 = (case seed of Some s \<Rightarrow> rng_seed s | None \<Rightarrow> ambient)
           in case boot_loop rng_next y_pred y_true cxr_labels n n_iterations g0 [] of
                (r, g') \<Rightarrow>
                  (case r of
                     Inl e \<Rightarrow> Inl e
                   | Inr boot_stats \<Rightarrow> Inr (boot_stats, summarize rnd boot_stats confidence),
                   case seed of Some s \<Rightarrow> ambient | None \<Rightarrow> g')))"

text \<open>A ground-truth column with one class only: all positive or all negative.\<close>

definition single_class :: "ndarray \<Rightarrow> nat \<Rightarrow> bool" where
  "single_class y_true j =
     (case column y_true j of
        Inl e \<Rightarrow> False
      | Inr y_true_j \<Rightarrow>
          list_all (\<lambda>t. t = Fin 1) y_true_j \<or> list_all (\<lambda>t. t \<noteq> Fin 1) y_true_j)"

text \<open>A row of \<open>L\<close> AUC values whose column \<open>j\<close> is the sentinel.\<close>

definition nan_row :: "string list \<Rightarrow> nat \<Rightarrow> nat \<Rightarrow> auc_table \<Rightarrow> bool" where
  "nan_row ls L j row =
     (length row = L \<and> row ! j = (ls ! j @ ''_auc'', NaN))"

text \<open>
  A small linear congruential generator, to run \<open>bootstrap\<close> on concrete inputs, and the
  example matrices of the specification.
\<close>

definition lcg_seed :: "nat \<Rightarrow> nat" where
  "lcg_seed s = s mod 64"

definition lcg_next :: "nat \<Rightarrow> nat \<times> nat" where
  "lcg_next g = (let g' = (13 * g + 7) mod 64 in (g' div 4, g'))"

definition spec_pred :: ndarray where
  "spec_pred =
     \<lparr>shape = [3, 2],
      data = [Fin (9 / 10), Fin (1 / 10), Fin (2 / 10), Fin (8 / 10), Fin (6 / 10), Fin (4 / 10)]\<rparr>"

definition spec_true :: ndarray where
  "spec_true = \<lparr>shape = [3, 2], data = [Fin 1, Fin 0, Fin 0, Fin 1, Fin 1, Fin 0]\<rparr>"

definition ones_true :: ndarray where
  "ones_true = \<lparr>shape = [3, 2], data = [Fin 1, Fin 0, Fin 1, Fin 1, Fin 1, Fin 0]\<rparr>"

definition nan_scalar :: ndarray where
  "nan_scalar = \<lparr>shape = [], data = [NaN]\<rparr>"

section \<open>Lemmas on lists\<close>

lemma concat_nth_uniform:
  "\<forall>x\<in>set xss. length x = m \<Longrightarrow> k < length xss \<Longrightarrow> j < m \<Longrightarrow>
     concat xss ! (k * m + j) = xss ! k ! j"
proof (induction xss arbitrary: k)
  case Nil
  then show ?case by simp
next
  case (Cons x xss)
  show ?case
  proof (cases k)
    case 0
    with Cons.prems show ?thesis by (simp add: nth_append)
  next
    case (Suc k')
    with Cons.prems have "concat (x # xss) ! (k * m + j) = concat xss ! (k' * m + j)"
      by (simp add: nth_append)
    with Cons Suc show ?thesis by simp
  qed
qed

lemma length_concat_uniform:
  "\<forall>x\<in>set xss. length x = m \<Longrightarrow> length (concat xss) = length xss * m"
  by (induction xss) simp_all

lemma map_index: "map (\<lambda>k. g (xs ! k)) [0..<length xs] = map g xs"
proof -
  have "map (\<lambda>k. g (xs ! k)) [0..<length xs] = map g (map ((!) xs) [0..<length xs])"
    by (simp add: o_def)
  also have "\<dots> = map g xs" by (simp only: map_nth)
  finally show ?thesis .
qed

section \<open>An empty list of checkpoints\<close>

lemma np_mean_Nil: "np_mean rnd [] = Inr \<lparr>shape = [], data = [NaN]\<rparr>"
  by (simp add: np_mean_def np_asarray_def np_mean_axis0_def fsum_def fdiv_count_def)

text \<open>
  C1, as stated, fails. The notebook's own call, with the empty \<open>model_paths\<close> it
  printed, is not rejected: it returns the empty list of predictions and the mean of no
  matrices, a 0-dimensional not-a-number.
\<close>

theorem ensemble_models_empty_counterexample:
  "fst (ensemble_models exact_rounding demo_make demo_run_softmax_eval nb_model_paths nb_cxr_filepath
          nb_cxr_labels nb_cxr_pair_template (Some nb_cache_dir) None empty_world)
     = Inr ([], \<lparr>shape = [], data = [NaN]\<rparr>)"
  by (simp add: ensemble_models_def nb_model_paths_def np_mean_Nil)

text \<open>
  C1, amended. For an empty list of checkpoint paths \<open>ensemble_models\<close> raises nothing,
  calls no external routine and touches no file: whatever the other arguments are, it
  returns the empty list of predictions together with the 0-dimensional not-a-number
  that \<open>np.mean\<close> gives for an empty list, and leaves the world as it was.
\<close>

theorem ensemble_models_empty:
  "ensemble_models rnd make' run_softmax_eval [] cxr_filepath cxr_labels cxr_pair_template
     cache_dir save_name w
   = (Inr ([], \<lparr>shape = [], data = [NaN]\<rparr>), w)"
  by (simp add: ensemble_models_def np_mean_Nil)

section \<open>Lemmas on directories, paths and the loop\<close>

lemmas run_defs = ensemble_models_def loop_body_def infer_and_cache_def log_def Let_def
  cache_path_of_def truediv_def Path_def splitroot_def stem_def name_def parent_def
  node_at_def path_exists_def is_dir_def os_mkdir_def np_load_def np_save_def
  np_mean_def np_asarray_def np_mean_axis0_def fsum_def fdiv_count_def
  demo_make_def demo_run_softmax_eval_def empty_world_def nb_cxr_filepath_def
  nb_cache_dir_def nb_cxr_pair_template_def valid_ndarray_def flat_name_def
  exact_rounding_def representable_def


lemma os_mkdir_Inr:
  "os_mkdir p f = Inr f' \<Longrightarrow>
     f' = f(p \<mapsto> Dir) \<and> f p = None \<and> path_parts p \<noteq> [] \<and> is_dir f (parent p)"
  by (auto simp: os_mkdir_def path_exists_def is_dir_def node_at_def
           split: option.splits node.splits if_splits)




lemma path_mkdir_changes:
  "path_mkdir p f = Inr f' \<Longrightarrow> f' q \<noteq> f q \<Longrightarrow>
     f q = None \<and> f' q = Some Dir \<and> length (path_parts q) \<le> length (path_parts p)"
proof (induction p f arbitrary: f' rule: path_mkdir.induct)
  case (1 p f)
  show ?case
  proof (cases "os_mkdir p f")
    case (Inr g)
    with "1.prems" have "f' = g" by (simp add: path_mkdir.simps [of p f])
    with os_mkdir_Inr [OF Inr] "1.prems"(2) show ?thesis by (auto split: if_splits)
  next
    case (Inl e)
    show ?thesis
    proof (cases "e = FileNotFoundError")
      case False
      with Inl "1.prems" show ?thesis
        by (simp add: path_mkdir.simps [of p f] split: if_splits)
    next
      case True
      with Inl "1.prems" have np: "parent p \<noteq> p"
        by (auto simp: path_mkdir.simps [of p f] split: if_splits)
      from Inl True np "1.prems" obtain f1 where rec: "path_mkdir (parent p) f = Inr f1"
        by (auto simp: path_mkdir.simps [of p f] split: sum.splits)
      have len: "length (path_parts (parent p)) \<le> length (path_parts p)"
        by (simp add: parent_def)
      have IH: "f1 q \<noteq> f q \<Longrightarrow>
          f q = None \<and> f1 q = Some Dir \<and> length (path_parts q) \<le> length (path_parts p)"
        using "1.IH" [OF Inl True np rec] len by fastforce
      show ?thesis
      proof (cases "os_mkdir p f1")
        case (Inr g)
        with Inl True np rec "1.prems" have g: "f' = g" by (simp add: path_mkdir.simps [of p f])
        from os_mkdir_Inr [OF Inr] have upd: "g = f1(p \<mapsto> Dir)" and free: "f1 p = None"
          by simp_all
        show ?thesis
        proof (cases "q = p")
          case True
          have "f p = None" using IH free True by (cases "f1 q = f q") auto
          with True g upd show ?thesis by simp
        next
          case False
          with g upd "1.prems"(2) IH show ?thesis by simp
        qed
      next
        case (Inl e')
        with \<open>os_mkdir p f = Inl e\<close> True np rec "1.prems" have "f' = f1"
          by (simp add: path_mkdir.simps [of p f] split: if_splits)
        with IH "1.prems"(2) show ?thesis by simp
      qed
    qed
  qed
qed

lemma path_mkdir_keeps:
  assumes "path_mkdir p f = Inr f'" and "node_at f q = Some n"
  shows "node_at f' q = Some n"
proof (cases "path_parts q = []")
  case True
  with assms(2) show ?thesis by (simp add: node_at_def)
next
  case False
  with assms(2) have "f q = Some n" by (simp add: node_at_def)
  with path_mkdir_changes [OF assms(1), of q] have "f' q = Some n" by fastforce
  with False show ?thesis by (simp add: node_at_def)
qed

lemma np_save_Inr:
  "np_save f p arr = Inr f' \<Longrightarrow>
     f' = f(p \<mapsto> Npy arr) \<and> path_parts p \<noteq> [] \<and> is_dir f (parent p)"
  by (auto simp: np_save_def is_dir_def node_at_def split: option.splits node.splits if_splits)


lemma make_calls_append: "make_calls (xs @ ys) = make_calls xs @ make_calls ys"
  by (induction xs rule: make_calls.induct) auto

lemma inference_calls_append:
  "inference_calls (xs @ ys) = inference_calls xs @ inference_calls ys"
  by (induction xs rule: inference_calls.induct) auto

lemma fsum_single: "fsum rnd [x] = x"
  by (simp add: fsum_def)

lemma fdiv_count_one: "representable rnd x \<Longrightarrow> fdiv_count rnd x (Suc 0) = x"
  by (cases x) (simp_all add: fdiv_count_def representable_def)

lemma np_mean_single:
  assumes "valid_ndarray P" and "list_all (representable rnd) (data P)"
  shows "np_mean rnd [P] = Inr P"
proof -
  have len: "prod_list (shape P) = length (data P)"
    using assms(1) by (simp add: valid_ndarray_def)
  have "map (\<lambda>j. fdiv_count rnd (data P ! j) (Suc 0)) [0..<length (data P)]
          = map (\<lambda>j. data P ! j) [0..<length (data P)]"
  proof (rule map_cong [OF refl])
    fix j assume "j \<in> set [0..<length (data P)]"
    then have "data P ! j \<in> set (data P)" by simp
    with assms(2) have "representable rnd (data P ! j)" by (simp add: list_all_iff)
    then show "fdiv_count rnd (data P ! j) (Suc 0) = data P ! j" by (rule fdiv_count_one)
  qed
  also have "\<dots> = data P" by (rule map_nth)
  finally show ?thesis
    by (simp add: np_mean_def np_asarray_def np_mean_axis0_def len fsum_single)
qed

lemma infer_and_cache_events:
  "infer_and_cache rse ls tp cd sn p m l w = (r, w') \<Longrightarrow>
     \<exists>new. events w' = events w @ new \<and> make_calls new = []"
  by (auto simp: infer_and_cache_def log_def Let_def split: sum.splits option.splits)

lemma loop_body_events:
  assumes "loop_body mk rse fp ls tp cd sn p w = (r, w')"
  shows "\<exists>rest. events w' = events w @ CallMake p fp # rest \<and> make_calls rest = []"
proof (cases "mk p fp")
  case (Inl e)
  with assms show ?thesis by (auto simp: loop_body_def log_def Let_def)
next
  case (Inr ml)
  obtain m l where ml: "ml = (m, l)" by (cases ml)
  show ?thesis
  proof (cases cd)
    case None
    with assms Inr ml have
      "infer_and_cache rse ls tp None sn p m l (log (CallMake p fp) w) = (r, w')"
      by (simp add: loop_body_def Let_def)
    from infer_and_cache_events [OF this] show ?thesis by (auto simp: log_def)
  next
    case (Some d)
    let ?cp = "cache_path_of d sn (stem (Path p))"
    let ?w2 = "log (CallExists ?cp) (log (CallMake p fp) w)"
    show ?thesis
    proof (cases "path_exists (fs ?w2) ?cp")
      case True
      with assms Inr ml Some show ?thesis
        by (auto simp: loop_body_def Let_def log_def)
    next
      case False
      with assms Inr ml Some have
        "infer_and_cache rse ls tp (Some d) sn p m l ?w2 = (r, w')"
        by (simp add: loop_body_def Let_def)
      from infer_and_cache_events [OF this] show ?thesis by (auto simp: log_def)
    qed
  qed
qed

lemma for_loop_events:
  "for_loop mk rse fp ls tp cd sn ps acc w = (Inr preds, w') \<Longrightarrow>
     \<exists>new. events w' = events w @ new \<and> make_calls new = ps"
proof (induction ps arbitrary: acc w)
  case Nil
  then show ?case by simp
next
  case (Cons p ps)
  obtain r w1 where lb: "loop_body mk rse fp ls tp cd sn p w = (r, w1)"
    by (cases "loop_body mk rse fp ls tp cd sn p w")
  with Cons.prems obtain y where r: "r = Inr y"
    and rest: "for_loop mk rse fp ls tp cd sn ps (acc @ [y]) w1 = (Inr preds, w')"
    by (cases r) auto
  from loop_body_events [OF lb] obtain e1 where
    e1: "events w1 = events w @ CallMake p fp # e1" "make_calls e1 = []" by blast
  from Cons.IH [OF rest] obtain e2 where
    e2: "events w' = events w1 @ e2" "make_calls e2 = ps" by blast
  have "events w' = events w @ (CallMake p fp # e1 @ e2)" using e1 e2 by simp
  moreover have "make_calls (CallMake p fp # e1 @ e2) = p # ps"
    using e1 e2 by (simp add: make_calls_append)
  ultimately show ?case by blast
qed

lemma loop_body_hit:
  assumes "mk p fp = Inr (m, l)"
    and "node_at (fs w) (cache_path_of cd sn (stem (Path p))) = Some (Npy y)"
  shows "loop_body mk rse fp ls tp (Some cd) sn p w =
     (Inr y, w\<lparr>events := events w @
        [CallMake p fp, CallExists (cache_path_of cd sn (stem (Path p))),
         Print (''Loading cached prediction for '' @ stem (Path p)),
         CallLoad (cache_path_of cd sn (stem (Path p)))]\<rparr>)"
  using assms by (simp add: loop_body_def Let_def log_def path_exists_def np_load_def)

lemma infer_and_cache_success:
  assumes run: "infer_and_cache rse ls tp (Some cd) sn p m l w = (Inr y, w')"
    and miss: "\<not> path_exists (fs w) (cache_path_of cd sn (stem (Path p)))"
  shows "node_at (fs w') (cache_path_of cd sn (stem (Path p))) = Some (Npy y)"
    and "node_at (fs w) q = Some (Npy a) \<Longrightarrow> node_at (fs w') q = Some (Npy a)"
proof -
  let ?cp = "cache_path_of cd sn (stem (Path p))"
  from run obtain f f' where mk: "path_mkdir (Path cd) (fs w) = Inr f"
    and sv: "np_save f ?cp y = Inr f'" and w': "fs w' = f'"
    by (auto simp: infer_and_cache_def log_def Let_def split: sum.splits)
  from np_save_Inr [OF sv] have upd: "f' = f(?cp \<mapsto> Npy y)" and ne: "path_parts ?cp \<noteq> []"
    by simp_all
  show "node_at (fs w') ?cp = Some (Npy y)"
    using upd ne w' by (simp add: node_at_def)
  assume q: "node_at (fs w) q = Some (Npy a)"
  with miss have "q \<noteq> ?cp" by (auto simp: path_exists_def)
  moreover from path_mkdir_keeps [OF mk q] have "node_at f q = Some (Npy a)" .
  ultimately show "node_at (fs w') q = Some (Npy a)"
    using upd w' by (auto simp: node_at_def split: if_splits)
qed

lemma loop_body_success:
  assumes run: "loop_body mk rse fp ls tp (Some cd) sn p w = (Inr y, w')"
  shows "node_at (fs w') (cache_path_of cd sn (stem (Path p))) = Some (Npy y)"
    and "\<exists>m l. mk p fp = Inr (m, l)"
    and "node_at (fs w) q = Some (Npy a) \<Longrightarrow> node_at (fs w') q = Some (Npy a)"
proof -
  let ?cp = "cache_path_of cd sn (stem (Path p))"
  let ?w2 = "log (CallExists ?cp) (log (CallMake p fp) w)"
  have fs2: "fs ?w2 = fs w" by (simp add: log_def)
  from run obtain m l where mk: "mk p fp = Inr (m, l)"
    by (cases "mk p fp") (auto simp: loop_body_def Let_def)
  then show "\<exists>m l. mk p fp = Inr (m, l)" by blast
  have "node_at (fs w') ?cp = Some (Npy y) \<and>
        (node_at (fs w) q = Some (Npy a) \<longrightarrow> node_at (fs w') q = Some (Npy a))"
  proof (cases "path_exists (fs w) ?cp")
    case True
    with run mk have "np_load (fs w) ?cp = Inr y" and "fs w' = fs w"
      by (auto simp: loop_body_def Let_def log_def)
    then show ?thesis
      by (auto simp: np_load_def split: option.splits node.splits)
  next
    case False
    with run mk have ic: "infer_and_cache rse ls tp (Some cd) sn p m l ?w2 = (Inr y, w')"
      by (simp add: loop_body_def Let_def log_def)
    from False have miss: "\<not> path_exists (fs ?w2) ?cp" by (simp add: fs2)
    from infer_and_cache_success [OF ic miss] show ?thesis by (simp add: fs2)
  qed
  then show "node_at (fs w') ?cp = Some (Npy y)"
    and "node_at (fs w) q = Some (Npy a) \<Longrightarrow> node_at (fs w') q = Some (Npy a)"
    by simp_all
qed

lemma for_loop_cached:
  "for_loop mk rse fp ls tp (Some cd) sn ps acc w = (Inr preds, w') \<Longrightarrow>
     \<exists>ys. preds = acc @ ys \<and> list_all2 (cached mk fp cd sn (fs w')) ps ys \<and>
       (\<forall>q a. node_at (fs w) q = Some (Npy a) \<longrightarrow> node_at (fs w') q = Some (Npy a))"
proof (induction ps arbitrary: acc w)
  case Nil
  then show ?case by simp
next
  case (Cons p ps)
  obtain r w1 where lb: "loop_body mk rse fp ls tp (Some cd) sn p w = (r, w1)"
    by (cases "loop_body mk rse fp ls tp (Some cd) sn p w")
  with Cons.prems obtain y where r: "r = Inr y"
    and rest: "for_loop mk rse fp ls tp (Some cd) sn ps (acc @ [y]) w1 = (Inr preds, w')"
    by (cases r) auto
  from Cons.IH [OF rest] obtain ys where
    ys: "preds = (acc @ [y]) @ ys" "list_all2 (cached mk fp cd sn (fs w')) ps ys"
    and keep: "\<forall>q a. node_at (fs w1) q = Some (Npy a) \<longrightarrow> node_at (fs w') q = Some (Npy a)"
    by blast
  note sb = loop_body_success [OF lb [unfolded r]]
  have "cached mk fp cd sn (fs w') p y"
    using sb(1) sb(2) keep by (simp add: cached_def)
  with ys have "preds = acc @ (y # ys)" "list_all2 (cached mk fp cd sn (fs w')) (p # ps) (y # ys)"
    by simp_all
  moreover have "\<forall>q a. node_at (fs w) q = Some (Npy a) \<longrightarrow> node_at (fs w') q = Some (Npy a)"
    using sb(3) keep by blast
  ultimately show ?case by blast
qed

lemma for_loop_replay:
  "list_all2 (cached mk fp cd sn (fs w)) ps ys \<Longrightarrow>
     \<exists>new. for_loop mk rse fp ls tp (Some cd) sn ps acc w
              = (Inr (acc @ ys), w\<lparr>events := events w @ new\<rparr>) \<and>
           inference_calls new = []"
proof (induction ps arbitrary: ys acc w)
  case Nil
  then have "for_loop mk rse fp ls tp (Some cd) sn [] acc w
             = (Inr (acc @ ys), w\<lparr>events := events w @ []\<rparr>)" by simp
  then show ?case by (metis inference_calls.simps(1))
next
  case (Cons p ps)
  from Cons.prems obtain y ys' where ys: "ys = y # ys'" and c: "cached mk fp cd sn (fs w) p y"
    and cs: "list_all2 (cached mk fp cd sn (fs w)) ps ys'"
    by (auto simp: list_all2_Cons1)
  let ?cp = "cache_path_of cd sn (stem (Path p))"
  let ?e1 = "[CallMake p fp, CallExists ?cp,
              Print (''Loading cached prediction for '' @ stem (Path p)), CallLoad ?cp]"
  let ?w1 = "w\<lparr>events := events w @ ?e1\<rparr>"
  from c obtain m l where mk: "mk p fp = Inr (m, l)"
    and hit: "node_at (fs w) ?cp = Some (Npy y)" by (auto simp: cached_def)
  have lb: "loop_body mk rse fp ls tp (Some cd) sn p w = (Inr y, ?w1)"
    using mk hit by (rule loop_body_hit)
  have "list_all2 (cached mk fp cd sn (fs ?w1)) ps ys'" using cs by simp
  from Cons.IH [OF this, of "acc @ [y]"] obtain new where
    new: "for_loop mk rse fp ls tp (Some cd) sn ps (acc @ [y]) ?w1
            = (Inr ((acc @ [y]) @ ys'), ?w1\<lparr>events := events ?w1 @ new\<rparr>)"
    and none: "inference_calls new = []" by blast
  have "for_loop mk rse fp ls tp (Some cd) sn (p # ps) acc w
          = (Inr (acc @ ys), w\<lparr>events := events w @ (?e1 @ new)\<rparr>)"
    using lb new ys by simp
  moreover have "inference_calls (?e1 @ new) = []" using none by simp
  ultimately show ?case by blast
qed

lemma split_sep_nonempty: "split_sep s \<noteq> []"
  by (induction s) (auto split: list.splits)

lemma split_sep_no_sep: "CHR ''/'' \<notin> set s \<Longrightarrow> split_sep s = [s]"
  by (induction s) auto

lemma split_sep_append: "split_sep (a @ CHR ''/'' # b) = split_sep a @ split_sep b"
proof (induction a)
  case Nil
  show ?case by simp
next
  case (Cons c a)
  obtain w ws where "split_sep a = w # ws"
    using split_sep_nonempty [of a] by (cases "split_sep a") auto
  with Cons show ?case by simp
qed

lemma split_sep_parts: "x \<in> set (split_sep s) \<Longrightarrow> CHR ''/'' \<notin> set x"
proof (induction s arbitrary: x)
  case Nil
  then show ?case by simp
next
  case (Cons c s)
  show ?case
  proof (cases "c = CHR ''/''")
    case True
    with Cons show ?thesis by auto
  next
    case False
    obtain w ws where ws: "split_sep s = w # ws"
      using split_sep_nonempty [of s] by (cases "split_sep s") auto
    with False Cons.prems have "x = c # w \<or> x \<in> set ws" by simp
    with False ws Cons.IH show ?thesis by auto
  qed
qed

lemma Path_parts:
  "path_parts (Path s)
     = filter (\<lambda>x. x \<noteq> [] \<and> x \<noteq> ''.'') (split_sep (dropWhile (\<lambda>c. c = CHR ''/'') s))"
proof (cases s)
  case Nil
  then show ?thesis by (simp add: Path_def splitroot_def)
next
  case (Cons c cs)
  then show ?thesis by (simp add: Path_def splitroot_def Let_def)
qed

lemma Path_parts_no_sep: "x \<in> set (path_parts (Path s)) \<Longrightarrow> CHR ''/'' \<notin> set x"
  by (auto simp: Path_parts dest: split_sep_parts)

lemma Path_simple:
  assumes "CHR ''/'' \<notin> set nm" and "nm \<noteq> []" and "nm \<noteq> ''.''"
  shows "Path nm = \<lparr>path_root = [], path_parts = [nm]\<rparr>"
proof -
  from assms have "hd nm \<noteq> CHR ''/''" by (cases nm) auto
  with assms show ?thesis
    by (simp add: Path_def splitroot_def split_sep_no_sep)
qed

lemma name_Path_dir:
  assumes "CHR ''/'' \<notin> set nm" and "nm \<noteq> []" and "nm \<noteq> ''.''"
  shows "name (Path (d @ CHR ''/'' # nm)) = nm"
proof -
  let ?P = "\<lambda>c. c = CHR ''/''"
  let ?ok = "\<lambda>x. x \<noteq> [] \<and> x \<noteq> ''.''"
  from assms have hd: "\<not> ?P (hd nm)" by (cases nm) auto
  have "\<exists>pre. filter ?ok (split_sep (dropWhile ?P (d @ CHR ''/'' # nm))) = pre @ [nm]"
  proof (cases "\<forall>x\<in>set d. ?P x")
    case True
    then have "dropWhile ?P (d @ CHR ''/'' # nm) = dropWhile ?P (CHR ''/'' # nm)"
      by (intro dropWhile_append2) simp
    also have "\<dots> = nm" using hd assms(2) by (cases nm) auto
    finally show ?thesis using assms by (simp add: split_sep_no_sep)
  next
    case False
    then obtain x where "x \<in> set d" "\<not> ?P x" by blast
    then have "dropWhile ?P (d @ CHR ''/'' # nm) = dropWhile ?P d @ CHR ''/'' # nm"
      by (rule dropWhile_append1)
    then show ?thesis using assms by (simp add: split_sep_append split_sep_no_sep)
  qed
  then show ?thesis by (auto simp: name_def Path_parts)
qed

lemma rfind_absent: "c \<notin> set s \<Longrightarrow> rfind c s = -1"
  by (induction s) (auto simp: Let_def)

lemma rfind_last: "c \<notin> set e \<Longrightarrow> rfind c (b @ c # e) = int (length b)"
  by (induction b) (auto simp: Let_def rfind_absent)

lemma stem_of_name:
  assumes "name p = b @ CHR ''.'' # e" and "b \<noteq> []" and "e \<noteq> []" and "CHR ''.'' \<notin> set e"
  shows "stem p = b"
  using assms by (simp add: stem_def Let_def rfind_last)

lemma stem_no_sep: "CHR ''/'' \<notin> set (stem (Path s))"
proof -
  have nm: "CHR ''/'' \<notin> set (name (Path s))"
  proof (cases "path_parts (Path s) = []")
    case True
    then show ?thesis by (simp add: name_def)
  next
    case False
    then have "last (path_parts (Path s)) \<in> set (path_parts (Path s))" by simp
    from Path_parts_no_sep [OF this] False show ?thesis by (simp add: name_def)
  qed
  show ?thesis
  proof
    assume "CHR ''/'' \<in> set (stem (Path s))"
    then have "CHR ''/'' \<in> set (name (Path s))"
      by (auto simp: stem_def Let_def split: if_splits dest: in_set_takeD)
    with nm show False by simp
  qed
qed

lemma truediv_simple:
  assumes "CHR ''/'' \<notin> set nm" and "nm \<noteq> []" and "nm \<noteq> ''.''"
  shows "truediv p nm = \<lparr>path_root = path_root p, path_parts = path_parts p @ [nm]\<rparr>"
  using assms by (simp add: truediv_def Path_simple)

lemma cache_path_of_flat:
  assumes "flat_name sn" and "CHR ''/'' \<notin> set mn"
  shows "cache_path_of cd sn mn
     = \<lparr>path_root = path_root (Path cd),
        path_parts = path_parts (Path cd) @ [cache_file_name sn mn]\<rparr>"
proof (cases sn)
  case None
  have "mn @ ''.npy'' \<noteq> ''.''" by (cases mn) auto
  with assms None show ?thesis
    by (simp add: cache_path_of_def cache_file_name_def truediv_simple)
next
  case (Some t)
  have "t @ ''_'' @ mn @ ''.npy'' \<noteq> ''.''" by (cases t) auto
  with assms Some show ?thesis
    by (simp add: cache_path_of_def cache_file_name_def flat_name_def truediv_simple)
qed

section \<open>The claims on the ensembling routine\<close>

text \<open>
  C3. After a first run with a cache directory has returned, a second run over the same
  checkpoints from the world the first run left returns the same predictions and the same
  average, writes nothing and makes no inference call. It does so whatever the inference
  routine, the label list and the templates of the second run are: the cached matrices
  are used as they are, with no check of their shape.
\<close>

theorem ensemble_models_second_run:
  assumes "ensemble_models rnd make' run_softmax_eval model_paths cxr_filepath cxr_labels
             cxr_pair_template (Some cache_dir) save_name w = (Inr (predictions, y_pred_avg), w1)"
  shows "\<exists>new. ensemble_models rnd make' run_softmax_eval2 model_paths cxr_filepath cxr_labels2
                  cxr_pair_template2 (Some cache_dir) save_name w1
                = (Inr (predictions, y_pred_avg), w1\<lparr>events := events w1 @ new\<rparr>) \<and>
               inference_calls new = []"
proof -
  from assms have
    fl: "for_loop make' run_softmax_eval cxr_filepath cxr_labels cxr_pair_template
           (Some cache_dir) save_name (sort model_paths) [] w = (Inr predictions, w1)"
    and avg: "np_mean rnd predictions = Inr y_pred_avg"
    by (auto simp: ensemble_models_def split: prod.splits sum.splits)
  from for_loop_cached [OF fl] have
    "list_all2 (cached make' cxr_filepath cache_dir save_name (fs w1)) (sort model_paths) predictions"
    by simp
  from for_loop_replay [OF this, of run_softmax_eval2 cxr_labels2 cxr_pair_template2 "[]"]
  obtain new where
    "for_loop make' run_softmax_eval2 cxr_filepath cxr_labels2 cxr_pair_template2
       (Some cache_dir) save_name (sort model_paths) [] w1
     = (Inr predictions, w1\<lparr>events := events w1 @ new\<rparr>)"
    and "inference_calls new = []" by auto
  with avg show ?thesis by (auto simp: ensemble_models_def)
qed

text \<open>
  C3 at two checkpoints: the second run is given an inference routine that always raises
  and a longer label list, and returns the first run's result.
\<close>

theorem ensemble_models_second_run_witness:
  "ensemble_models exact_rounding demo_make demo_run_softmax_eval [''b/m2.pt'', ''a/model1.pt'']
     nb_cxr_filepath [''Edema''] nb_cxr_pair_template (Some nb_cache_dir) None empty_world
   = (Inr ([\<lparr>shape = [1, 1], data = [Fin 11]\<rparr>, \<lparr>shape = [1, 1], data = [Fin 7]\<rparr>],
           \<lparr>shape = [1, 1], data = [Fin 9]\<rparr>),
      snd (ensemble_models exact_rounding demo_make demo_run_softmax_eval [''b/m2.pt'', ''a/model1.pt'']
             nb_cxr_filepath [''Edema''] nb_cxr_pair_template (Some nb_cache_dir) None
             empty_world)) \<and>
   (\<exists>new.
      ensemble_models exact_rounding demo_make broken_run_softmax_eval [''b/m2.pt'', ''a/model1.pt'']
        nb_cxr_filepath [''Edema'', ''Pneumonia''] nb_cxr_pair_template (Some nb_cache_dir) None
        (snd (ensemble_models exact_rounding demo_make demo_run_softmax_eval [''b/m2.pt'', ''a/model1.pt'']
                nb_cxr_filepath [''Edema''] nb_cxr_pair_template (Some nb_cache_dir) None
                empty_world))
      = (Inr ([\<lparr>shape = [1, 1], data = [Fin 11]\<rparr>, \<lparr>shape = [1, 1], data = [Fin 7]\<rparr>],
              \<lparr>shape = [1, 1], data = [Fin 9]\<rparr>),
         (snd (ensemble_models exact_rounding demo_make demo_run_softmax_eval [''b/m2.pt'', ''a/model1.pt'']
                 nb_cxr_filepath [''Edema''] nb_cxr_pair_template (Some nb_cache_dir) None
                 empty_world))
           \<lparr>events :=
              events (snd (ensemble_models exact_rounding demo_make demo_run_softmax_eval
                 [''b/m2.pt'', ''a/model1.pt''] nb_cxr_filepath [''Edema'']
                 nb_cxr_pair_template (Some nb_cache_dir) None empty_world)) @ new\<rparr>) \<and>
      inference_calls new = [])"
proof -
  have v: "fst (ensemble_models exact_rounding demo_make demo_run_softmax_eval [''b/m2.pt'', ''a/model1.pt'']
     nb_cxr_filepath [''Edema''] nb_cxr_pair_template (Some nb_cache_dir) None empty_world)
   = Inr ([\<lparr>shape = [1, 1], data = [Fin 11]\<rparr>, \<lparr>shape = [1, 1], data = [Fin 7]\<rparr>],
          \<lparr>shape = [1, 1], data = [Fin 9]\<rparr>)"
    by (simp add: run_defs path_mkdir.simps)
  have h: "ensemble_models exact_rounding demo_make demo_run_softmax_eval [''b/m2.pt'', ''a/model1.pt'']
     nb_cxr_filepath [''Edema''] nb_cxr_pair_template (Some nb_cache_dir) None empty_world
   = (Inr ([\<lparr>shape = [1, 1], data = [Fin 11]\<rparr>, \<lparr>shape = [1, 1], data = [Fin 7]\<rparr>],
           \<lparr>shape = [1, 1], data = [Fin 9]\<rparr>),
      snd (ensemble_models exact_rounding demo_make demo_run_softmax_eval [''b/m2.pt'', ''a/model1.pt'']
             nb_cxr_filepath [''Edema''] nb_cxr_pair_template (Some nb_cache_dir) None
             empty_world))"
    using v by (simp add: prod_eq_iff)
  from h ensemble_models_second_run [OF h, of broken_run_softmax_eval
      "[''Edema'', ''Pneumonia'']" nb_cxr_pair_template]
  show ?thesis by blast
qed

text \<open>
  C4. Whatever prediction matrix \<open>P\<close> the single checkpoint yields, by inference or from
  its cache file, ensembling the one-element list returns \<open>[P]\<close> and the average \<open>P\<close>
  itself: the single-checkpoint ensemble is the identity. This holds for every rounding;
  \<open>P\<close> is an array of float64 values, which the rounding leaves as they are.
\<close>

theorem ensemble_models_single:
  assumes "loop_body make' run_softmax_eval cxr_filepath cxr_labels cxr_pair_template
             cache_dir save_name path w = (Inr P, w')"
    and "valid_ndarray P"
    and "list_all (representable rnd) (data P)"
  shows "ensemble_models rnd make' run_softmax_eval [path] cxr_filepath cxr_labels
           cxr_pair_template cache_dir save_name w = (Inr ([P], P), w')"
  using assms by (simp add: ensemble_models_def np_mean_single)

text \<open>C4 at a concrete checkpoint, without a cache directory.\<close>

theorem ensemble_models_single_witness:
  "loop_body demo_make demo_run_softmax_eval nb_cxr_filepath [''Edema'', ''Pneumonia'']
     nb_cxr_pair_template None None ''ckpt/model.pt'' empty_world
   = (Inr \<lparr>shape = [1, 2], data = [Fin 13, Fin 14]\<rparr>,
      \<lparr>fs = Map.empty,
       events = [CallMake ''ckpt/model.pt'' ''../data/cxr.h5'',
                 Print ''Inferring model ckpt/model.pt'',
                 CallRunSoftmaxEval ''ckpt/model.pt'']\<rparr>) \<and>
   valid_ndarray \<lparr>shape = [1, 2], data = [Fin 13, Fin 14]\<rparr> \<and>
   list_all (representable exact_rounding) (data \<lparr>shape = [1, 2], data = [Fin 13, Fin 14]\<rparr>) \<and>
   ensemble_models exact_rounding demo_make demo_run_softmax_eval [''ckpt/model.pt''] nb_cxr_filepath
     [''Edema'', ''Pneumonia''] nb_cxr_pair_template None None empty_world
   = (Inr ([\<lparr>shape = [1, 2], data = [Fin 13, Fin 14]\<rparr>],
           \<lparr>shape = [1, 2], data = [Fin 13, Fin 14]\<rparr>),
      \<lparr>fs = Map.empty,
       events = [CallMake ''ckpt/model.pt'' ''../data/cxr.h5'',
                 Print ''Inferring model ckpt/model.pt'',
                 CallRunSoftmaxEval ''ckpt/model.pt'']\<rparr>)"
proof -
  have h1: "loop_body demo_make demo_run_softmax_eval nb_cxr_filepath [''Edema'', ''Pneumonia'']
     nb_cxr_pair_template None None ''ckpt/model.pt'' empty_world
   = (Inr \<lparr>shape = [1, 2], data = [Fin 13, Fin 14]\<rparr>,
      \<lparr>fs = Map.empty,
       events = [CallMake ''ckpt/model.pt'' ''../data/cxr.h5'',
                 Print ''Inferring model ckpt/model.pt'',
                 CallRunSoftmaxEval ''ckpt/model.pt'']\<rparr>)"
    by (simp add: run_defs)
  have h2: "valid_ndarray \<lparr>shape = [1, 2], data = [Fin 13, Fin 14]\<rparr>"
    by (simp add: valid_ndarray_def)
  have h3: "list_all (representable exact_rounding)
      (data \<lparr>shape = [1, 2], data = [Fin 13, Fin 14]\<rparr>)"
    by (simp add: representable_def exact_rounding_def)
  from h1 h2 h3 ensemble_models_single [OF h1 h2 h3] show ?thesis by blast
qed

text \<open>
  C5, as stated, fails in its second half: the sorting does affect the numeric result.
  The loop depends on the order in which it meets the checkpoints. With a cache directory,
  the checkpoints \<open>a/m.pt\<close> and \<open>bb/m.pt\<close> share the cache file \<open>m.npy\<close>; the one met
  first fills it and the other loads it, so the loop over the two orders yields different
  predictions and different averages. \<open>ensemble_models\<close> returns the ones of the sorted
  order, whichever order it is given.
\<close>

theorem loop_order_counterexample:
  "fst (for_loop demo_make demo_run_softmax_eval nb_cxr_filepath [''Edema'']
          nb_cxr_pair_template (Some nb_cache_dir) None [''a/m.pt'', ''bb/m.pt''] []
          empty_world)
     = Inr [\<lparr>shape = [1, 1], data = [Fin 6]\<rparr>, \<lparr>shape = [1, 1], data = [Fin 6]\<rparr>] \<and>
   fst (for_loop demo_make demo_run_softmax_eval nb_cxr_filepath [''Edema'']
          nb_cxr_pair_template (Some nb_cache_dir) None [''bb/m.pt'', ''a/m.pt''] []
          empty_world)
     = Inr [\<lparr>shape = [1, 1], data = [Fin 7]\<rparr>, \<lparr>shape = [1, 1], data = [Fin 7]\<rparr>] \<and>
   np_mean exact_rounding
     [\<lparr>shape = [1, 1], data = [Fin 6]\<rparr>, \<lparr>shape = [1, 1], data = [Fin 6]\<rparr>]
     = Inr \<lparr>shape = [1, 1], data = [Fin 6]\<rparr> \<and>
   np_mean exact_rounding
     [\<lparr>shape = [1, 1], data = [Fin 7]\<rparr>, \<lparr>shape = [1, 1], data = [Fin 7]\<rparr>]
     = Inr \<lparr>shape = [1, 1], data = [Fin 7]\<rparr> \<and>
   fst (ensemble_models exact_rounding demo_make demo_run_softmax_eval
          [''bb/m.pt'', ''a/m.pt''] nb_cxr_filepath [''Edema''] nb_cxr_pair_template
          (Some nb_cache_dir) None empty_world)
     = Inr ([\<lparr>shape = [1, 1], data = [Fin 6]\<rparr>, \<lparr>shape = [1, 1], data = [Fin 6]\<rparr>],
            \<lparr>shape = [1, 1], data = [Fin 6]\<rparr>)"
  by (simp add: run_defs path_mkdir.simps)

text \<open>
  C5, amended. Supplying the same checkpoint paths in another order changes nothing,
  because the paths are sorted before the loop runs: the predictions, their average, the
  files written and the calls made are the same.
\<close>

theorem ensemble_models_permutation:
  assumes "mset model_paths = mset model_paths'"
  shows "ensemble_models rnd make' run_softmax_eval model_paths cxr_filepath cxr_labels
           cxr_pair_template cache_dir save_name w
       = ensemble_models rnd make' run_softmax_eval model_paths' cxr_filepath cxr_labels
           cxr_pair_template cache_dir save_name w"
proof -
  have "sort model_paths = sort model_paths'"
    using assms by (intro properties_for_sort) simp_all
  then show ?thesis by (simp add: ensemble_models_def)
qed

text \<open>C5, amended, at two checkpoints given in both orders.\<close>

theorem ensemble_models_permutation_witness:
  "mset [''b/m2.pt'', ''a/model1.pt''] = mset [''a/model1.pt'', ''b/m2.pt''] \<and>
   ensemble_models exact_rounding demo_make demo_run_softmax_eval
     [''b/m2.pt'', ''a/model1.pt''] nb_cxr_filepath [''Edema''] nb_cxr_pair_template
     (Some nb_cache_dir) None empty_world
   = ensemble_models exact_rounding demo_make demo_run_softmax_eval
       [''a/model1.pt'', ''b/m2.pt''] nb_cxr_filepath [''Edema''] nb_cxr_pair_template
       (Some nb_cache_dir) None empty_world \<and>
   fst (ensemble_models exact_rounding demo_make demo_run_softmax_eval
          [''b/m2.pt'', ''a/model1.pt''] nb_cxr_filepath [''Edema''] nb_cxr_pair_template
          (Some nb_cache_dir) None empty_world)
   = Inr ([\<lparr>shape = [1, 1], data = [Fin 11]\<rparr>, \<lparr>shape = [1, 1], data = [Fin 7]\<rparr>],
          \<lparr>shape = [1, 1], data = [Fin 9]\<rparr>)"
proof -
  have h: "mset [''b/m2.pt'', ''a/model1.pt''] = mset [''a/model1.pt'', ''b/m2.pt'']"
    by simp
  have v: "fst (ensemble_models exact_rounding demo_make demo_run_softmax_eval
          [''b/m2.pt'', ''a/model1.pt''] nb_cxr_filepath [''Edema''] nb_cxr_pair_template
          (Some nb_cache_dir) None empty_world)
   = Inr ([\<lparr>shape = [1, 1], data = [Fin 11]\<rparr>, \<lparr>shape = [1, 1], data = [Fin 7]\<rparr>],
          \<lparr>shape = [1, 1], data = [Fin 9]\<rparr>)"
    by (simp add: run_defs path_mkdir.simps)
  from h v ensemble_models_permutation [OF h] show ?thesis by blast
qed

text \<open>
  C8. For every checkpoint path the cache path is the file \<open>stem.npy\<close> in the cache
  directory when no run tag is given, and \<open>Path(cache_dir) / (save_name_stem.npy)\<close>
  when one is given, which is the file of that name in the cache directory when the tag
  has no separator. Two checkpoint paths with the same stem have the same cache path.
  The stem of a path made of a directory part, a base name \<open>b\<close> and an extension
  \<open>e\<close> is \<open>b\<close>.
\<close>

theorem cache_path_from_stem:
  "cache_path_of cache_dir None (stem (Path path))
     = \<lparr>path_root = path_root (Path cache_dir),
        path_parts = path_parts (Path cache_dir) @ [stem (Path path) @ ''.npy'']\<rparr> \<and>
   cache_path_of cache_dir (Some save_name) (stem (Path path))
     = truediv (Path cache_dir) (save_name @ ''_'' @ stem (Path path) @ ''.npy'') \<and>
   (CHR ''/'' \<notin> set save_name \<longrightarrow>
      cache_path_of cache_dir (Some save_name) (stem (Path path))
        = \<lparr>path_root = path_root (Path cache_dir),
           path_parts = path_parts (Path cache_dir)
             @ [save_name @ ''_'' @ stem (Path path) @ ''.npy'']\<rparr>) \<and>
   (stem (Path path') = stem (Path path) \<longrightarrow>
      cache_path_of cache_dir tag (stem (Path path'))
        = cache_path_of cache_dir tag (stem (Path path))) \<and>
   (path = dir @ b @ ''.'' @ e \<and> (dir = [] \<or> last dir = CHR ''/'') \<and>
    b \<noteq> [] \<and> CHR ''/'' \<notin> set b \<and> e \<noteq> [] \<and> CHR ''/'' \<notin> set e \<and> CHR ''.'' \<notin> set e \<longrightarrow>
      stem (Path path) = b)"
proof (intro conjI impI)
  have "flat_name None" by (simp add: flat_name_def)
  from cache_path_of_flat [OF this stem_no_sep, of cache_dir path]
  show "cache_path_of cache_dir None (stem (Path path))
     = \<lparr>path_root = path_root (Path cache_dir),
        path_parts = path_parts (Path cache_dir) @ [stem (Path path) @ ''.npy'']\<rparr>"
    by (simp add: cache_file_name_def)
next
  show "cache_path_of cache_dir (Some save_name) (stem (Path path))
     = truediv (Path cache_dir) (save_name @ ''_'' @ stem (Path path) @ ''.npy'')"
    by (simp add: cache_path_of_def)
next
  assume "CHR ''/'' \<notin> set save_name"
  then have "flat_name (Some save_name)" by (simp add: flat_name_def)
  from cache_path_of_flat [OF this stem_no_sep, of cache_dir path]
  show "cache_path_of cache_dir (Some save_name) (stem (Path path))
        = \<lparr>path_root = path_root (Path cache_dir),
           path_parts = path_parts (Path cache_dir)
             @ [save_name @ ''_'' @ stem (Path path) @ ''.npy'']\<rparr>"
    by (simp add: cache_file_name_def)
next
  assume "stem (Path path') = stem (Path path)"
  then show "cache_path_of cache_dir tag (stem (Path path'))
        = cache_path_of cache_dir tag (stem (Path path))" by simp
next
  assume a: "path = dir @ b @ ''.'' @ e \<and> (dir = [] \<or> last dir = CHR ''/'') \<and>
    b \<noteq> [] \<and> CHR ''/'' \<notin> set b \<and> e \<noteq> [] \<and> CHR ''/'' \<notin> set e \<and> CHR ''.'' \<notin> set e"
  let ?nm = "b @ CHR ''.'' # e"
  have nm: "CHR ''/'' \<notin> set ?nm" "?nm \<noteq> []" "?nm \<noteq> ''.''"
    using a by (auto simp: append_eq_Cons_conv)
  have "name (Path path) = ?nm"
  proof (cases "dir = []")
    case True
    with a nm show ?thesis by (simp add: Path_simple name_def)
  next
    case False
    with a obtain d where "dir = d @ [CHR ''/'']"
      by (metis append_butlast_last_id)
    with a have "path = d @ CHR ''/'' # ?nm" by simp
    with name_Path_dir [OF nm] show ?thesis by simp
  qed
  moreover from a have "b \<noteq> []" "e \<noteq> []" "CHR ''.'' \<notin> set e" by simp_all
  ultimately show "stem (Path path) = b" by (rule stem_of_name)
qed

text \<open>C8 at the checkpoint \<open>../checkpoints/best_64.pt\<close> and the notebook's cache directory.\<close>

theorem cache_path_from_stem_witness:
  "CHR ''/'' \<notin> set ''run1'' \<and>
   stem (Path ''other/best_64.pth'') = stem (Path ''../checkpoints/best_64.pt'') \<and>
   ''../checkpoints/best_64.pt'' = ''../checkpoints/'' @ ''best_64'' @ ''.'' @ ''pt'' \<and>
   (''../checkpoints/'' = [] \<or> last ''../checkpoints/'' = CHR ''/'') \<and>
   ''best_64'' \<noteq> [] \<and> CHR ''/'' \<notin> set ''best_64'' \<and>
   ''pt'' \<noteq> [] \<and> CHR ''/'' \<notin> set ''pt'' \<and> CHR ''.'' \<notin> set ''pt'' \<and>
   stem (Path ''../checkpoints/best_64.pt'') = ''best_64'' \<and>
   cache_path_of nb_cache_dir None (stem (Path ''../checkpoints/best_64.pt''))
     = \<lparr>path_root = [],
        path_parts = [''..'', ''predictions'', ''ensembled'', ''best_64.npy'']\<rparr> \<and>
   cache_path_of nb_cache_dir (Some ''run1'') (stem (Path ''../checkpoints/best_64.pt''))
     = \<lparr>path_root = [],
        path_parts = [''..'', ''predictions'', ''ensembled'', ''run1_best_64.npy'']\<rparr> \<and>
   cache_path_of nb_cache_dir (Some ''run1'') (stem (Path ''other/best_64.pth''))
     = cache_path_of nb_cache_dir (Some ''run1'') (stem (Path ''../checkpoints/best_64.pt''))"
proof -
  have h0: "stem (Path ''other/best_64.pth'') = stem (Path ''../checkpoints/best_64.pt'')"
    by (simp add: stem_def name_def Path_def splitroot_def Let_def)
  have h1: "''../checkpoints/best_64.pt'' = ''../checkpoints/'' @ ''best_64'' @ ''.'' @ ''pt''"
    by simp
  have h2: "''../checkpoints/'' = [] \<or> last ''../checkpoints/'' = CHR ''/''" by simp
  have h3: "''best_64'' \<noteq> []" by simp
  have h4: "CHR ''/'' \<notin> set ''best_64''" by simp
  have h5: "''pt'' \<noteq> []" by simp
  have h6: "CHR ''/'' \<notin> set ''pt''" by simp
  have h7: "CHR ''.'' \<notin> set ''pt''" by simp
  have h8: "CHR ''/'' \<notin> set ''run1''" by simp
  have p: "Path nb_cache_dir = \<lparr>path_root = [], path_parts = [''..'', ''predictions'', ''ensembled'']\<rparr>"
    by (simp add: Path_def splitroot_def nb_cache_dir_def)
  note T = cache_path_from_stem [of nb_cache_dir "''../checkpoints/best_64.pt''" "''run1''"
      "''other/best_64.pth''" "Some ''run1''" "''../checkpoints/''" "''best_64''" "''pt''"]
  from T h1 h2 h3 h4 h5 h6 h7
  have a: "stem (Path ''../checkpoints/best_64.pt'') = ''best_64''" by blast
  from T have "cache_path_of nb_cache_dir None (stem (Path ''../checkpoints/best_64.pt''))
     = \<lparr>path_root = path_root (Path nb_cache_dir),
        path_parts = path_parts (Path nb_cache_dir)
          @ [stem (Path ''../checkpoints/best_64.pt'') @ ''.npy'']\<rparr>" by blast
  then have b: "cache_path_of nb_cache_dir None (stem (Path ''../checkpoints/best_64.pt''))
     = \<lparr>path_root = [],
        path_parts = [''..'', ''predictions'', ''ensembled'', ''best_64.npy'']\<rparr>"
    by (simp add: p a)
  from T h8 have "cache_path_of nb_cache_dir (Some ''run1'')
       (stem (Path ''../checkpoints/best_64.pt''))
     = \<lparr>path_root = path_root (Path nb_cache_dir),
        path_parts = path_parts (Path nb_cache_dir)
          @ [''run1'' @ ''_'' @ stem (Path ''../checkpoints/best_64.pt'') @ ''.npy'']\<rparr>"
    by blast
  then have c: "cache_path_of nb_cache_dir (Some ''run1'')
       (stem (Path ''../checkpoints/best_64.pt''))
     = \<lparr>path_root = [],
        path_parts = [''..'', ''predictions'', ''ensembled'', ''run1_best_64.npy'']\<rparr>"
    by (simp add: p a)
  from T h0 have d: "cache_path_of nb_cache_dir (Some ''run1'') (stem (Path ''other/best_64.pth''))
     = cache_path_of nb_cache_dir (Some ''run1'') (stem (Path ''../checkpoints/best_64.pt''))"
    by blast
  from h0 h1 h2 h3 h4 h5 h6 h7 h8 a b c d show ?thesis by blast
qed




text \<open>
  C10. In every iteration the call of \<open>make\<close> is the first thing that happens, before
  the cache path is looked up, and it happens once. On a cache hit the iteration is that
  call, the lookup, the printed line and the load, and no inference. A run that returns
  has called \<open>make\<close> once for every checkpoint path, in sorted order.
\<close>

theorem make_precedes_cache:
  "(\<exists>rest. events (snd (loop_body make' run_softmax_eval cxr_filepath cxr_labels
                           cxr_pair_template cache_dir save_name path w))
            = events w @ CallMake path cxr_filepath # rest \<and> make_calls rest = []) \<and>
   (make' path cxr_filepath = Inr (model, loader) \<and>
    node_at (fs w) (cache_path_of cd save_name (stem (Path path))) = Some (Npy y) \<longrightarrow>
      loop_body make' run_softmax_eval cxr_filepath cxr_labels cxr_pair_template (Some cd)
        save_name path w
      = (Inr y, w\<lparr>events := events w @
           [CallMake path cxr_filepath,
            CallExists (cache_path_of cd save_name (stem (Path path))),
            Print (''Loading cached prediction for '' @ stem (Path path)),
            CallLoad (cache_path_of cd save_name (stem (Path path)))]\<rparr>)) \<and>
   (\<forall>r w'. ensemble_models rnd make' run_softmax_eval model_paths cxr_filepath cxr_labels
              cxr_pair_template cache_dir save_name w = (Inr r, w') \<longrightarrow>
      (\<exists>new. events w' = events w @ new \<and> make_calls new = sort model_paths))"
proof (intro conjI allI impI)
  obtain r w' where lb: "loop_body make' run_softmax_eval cxr_filepath cxr_labels
      cxr_pair_template cache_dir save_name path w = (r, w')"
    by (cases "loop_body make' run_softmax_eval cxr_filepath cxr_labels
      cxr_pair_template cache_dir save_name path w")
  from loop_body_events [OF lb] lb
  show "\<exists>rest. events (snd (loop_body make' run_softmax_eval cxr_filepath cxr_labels
                           cxr_pair_template cache_dir save_name path w))
            = events w @ CallMake path cxr_filepath # rest \<and> make_calls rest = []"
    by simp
next
  assume "make' path cxr_filepath = Inr (model, loader) \<and>
    node_at (fs w) (cache_path_of cd save_name (stem (Path path))) = Some (Npy y)"
  then show "loop_body make' run_softmax_eval cxr_filepath cxr_labels cxr_pair_template
        (Some cd) save_name path w
      = (Inr y, w\<lparr>events := events w @
           [CallMake path cxr_filepath,
            CallExists (cache_path_of cd save_name (stem (Path path))),
            Print (''Loading cached prediction for '' @ stem (Path path)),
            CallLoad (cache_path_of cd save_name (stem (Path path)))]\<rparr>)"
    by (intro loop_body_hit) simp_all
next
  fix r w'
  assume "ensemble_models rnd make' run_softmax_eval model_paths cxr_filepath cxr_labels
              cxr_pair_template cache_dir save_name w = (Inr r, w')"
  then obtain preds where
    "for_loop make' run_softmax_eval cxr_filepath cxr_labels cxr_pair_template cache_dir
       save_name (sort model_paths) [] w = (Inr preds, w')"
    by (auto simp: ensemble_models_def split: prod.splits sum.splits)
  from for_loop_events [OF this]
  show "\<exists>new. events w' = events w @ new \<and> make_calls new = sort model_paths" .
qed

text \<open>C10 at a checkpoint whose prediction is already cached.\<close>

theorem make_precedes_cache_witness:
  "demo_make ''ckpt/model.pt'' nb_cxr_filepath = Inr (''ckpt/model.pt'', nb_cxr_filepath) \<and>
   node_at (fs warm_world) (cache_path_of nb_cache_dir None (stem (Path ''ckpt/model.pt'')))
     = Some (Npy stale_prediction) \<and>
   loop_body demo_make broken_run_softmax_eval nb_cxr_filepath nb_cxr_labels
     nb_cxr_pair_template (Some nb_cache_dir) None ''ckpt/model.pt'' warm_world
   = (Inr stale_prediction,
      warm_world\<lparr>events := events warm_world @
        [CallMake ''ckpt/model.pt'' nb_cxr_filepath,
         CallExists (cache_path_of nb_cache_dir None (stem (Path ''ckpt/model.pt''))),
         Print (''Loading cached prediction for '' @ stem (Path ''ckpt/model.pt'')),
         CallLoad (cache_path_of nb_cache_dir None (stem (Path ''ckpt/model.pt'')))]\<rparr>) \<and>
   ensemble_models exact_rounding demo_make broken_run_softmax_eval [''ckpt/model.pt''] nb_cxr_filepath
     nb_cxr_labels nb_cxr_pair_template (Some nb_cache_dir) None warm_world
   = (Inr ([stale_prediction], stale_prediction),
      snd (ensemble_models exact_rounding demo_make broken_run_softmax_eval [''ckpt/model.pt'']
             nb_cxr_filepath nb_cxr_labels nb_cxr_pair_template (Some nb_cache_dir) None
             warm_world)) \<and>
   (\<exists>new. events (snd (ensemble_models exact_rounding demo_make broken_run_softmax_eval [''ckpt/model.pt'']
             nb_cxr_filepath nb_cxr_labels nb_cxr_pair_template (Some nb_cache_dir) None
             warm_world)) = events warm_world @ new \<and>
          make_calls new = sort [''ckpt/model.pt''])"
proof -
  have h1: "demo_make ''ckpt/model.pt'' nb_cxr_filepath = Inr (''ckpt/model.pt'', nb_cxr_filepath)"
    by (simp add: demo_make_def)
  have h2: "node_at (fs warm_world)
      (cache_path_of nb_cache_dir None (stem (Path ''ckpt/model.pt'')))
     = Some (Npy stale_prediction)"
    by (simp add: run_defs warm_world_def)
  have v: "fst (ensemble_models exact_rounding demo_make broken_run_softmax_eval [''ckpt/model.pt'']
     nb_cxr_filepath nb_cxr_labels nb_cxr_pair_template (Some nb_cache_dir) None warm_world)
   = Inr ([stale_prediction], stale_prediction)"
    by code_simp
  have h3: "ensemble_models exact_rounding demo_make broken_run_softmax_eval [''ckpt/model.pt'']
     nb_cxr_filepath nb_cxr_labels nb_cxr_pair_template (Some nb_cache_dir) None warm_world
   = (Inr ([stale_prediction], stale_prediction),
      snd (ensemble_models exact_rounding demo_make broken_run_softmax_eval [''ckpt/model.pt'']
             nb_cxr_filepath nb_cxr_labels nb_cxr_pair_template (Some nb_cache_dir) None
             warm_world))"
    using v by (simp add: prod_eq_iff)
  note T = make_precedes_cache [of demo_make broken_run_softmax_eval nb_cxr_filepath
      nb_cxr_labels nb_cxr_pair_template "Some nb_cache_dir" None "''ckpt/model.pt''"
      warm_world "''ckpt/model.pt''" nb_cxr_filepath nb_cache_dir stale_prediction
      exact_rounding "[''ckpt/model.pt'']"]
  from T h1 h2 have hit: "loop_body demo_make broken_run_softmax_eval nb_cxr_filepath
     nb_cxr_labels nb_cxr_pair_template (Some nb_cache_dir) None ''ckpt/model.pt'' warm_world
   = (Inr stale_prediction,
      warm_world\<lparr>events := events warm_world @
        [CallMake ''ckpt/model.pt'' nb_cxr_filepath,
         CallExists (cache_path_of nb_cache_dir None (stem (Path ''ckpt/model.pt''))),
         Print (''Loading cached prediction for '' @ stem (Path ''ckpt/model.pt'')),
         CallLoad (cache_path_of nb_cache_dir None (stem (Path ''ckpt/model.pt'')))]\<rparr>)"
    by blast
  from T h3 have "\<exists>new. events (snd (ensemble_models exact_rounding demo_make broken_run_softmax_eval
             [''ckpt/model.pt''] nb_cxr_filepath nb_cxr_labels nb_cxr_pair_template
             (Some nb_cache_dir) None warm_world)) = events warm_world @ new \<and>
          make_calls new = sort [''ckpt/model.pt'']"
    by blast
  with h1 h2 h3 hit show ?thesis by blast
qed

section \<open>Lemmas on the evaluator\<close>

lemma column_matrix:
  "shape a = [n, m] \<Longrightarrow> i < m \<Longrightarrow>
     column a i = Inr (map (\<lambda>r. data a ! (r * m + i)) [0..<n])"
  by (simp add: column_def)

lemma auc_same_length: "length t = length p \<Longrightarrow> \<exists>v. auc t p = Inr v"
  by (simp add: auc_def Let_def)

lemma filter_zip_fst:
  "length t = length p \<Longrightarrow> list_all Q t \<Longrightarrow>
     filter (\<lambda>(x, s). \<not> Q x) (zip t p) = []"
  by (induction t p rule: list_induct2) auto

lemma auc_single_class:
  assumes "length t = length p"
    and "list_all (\<lambda>x. x = Fin 1) t \<or> list_all (\<lambda>x. x \<noteq> Fin 1) t"
  shows "auc t p = Inr NaN"
proof -
  from assms(2) show ?thesis
  proof
    assume "list_all (\<lambda>x. x = Fin 1) t"
    from filter_zip_fst [OF assms(1), of "\<lambda>x. x = Fin 1", OF this]
    have "filter (\<lambda>(x, s). x \<noteq> Fin 1) (zip t p) = []" by simp
    with assms(1) show ?thesis by (simp add: auc_def Let_def)
  next
    assume "list_all (\<lambda>x. x \<noteq> Fin 1) t"
    from filter_zip_fst [OF assms(1), of "\<lambda>x. x \<noteq> Fin 1", OF this]
    have "filter (\<lambda>(x, s). x = Fin 1) (zip t p) = []" by simp
    with assms(1) show ?thesis by (simp add: auc_def Let_def)
  qed
qed

lemma column_auc_matrix:
  assumes "shape y_pred = [n, L]" and "shape y_true = [n, L]" and "i < L"
  shows "\<exists>v. column_auc y_pred y_true i = Inr v"
  using assms auc_same_length [of "map (\<lambda>r. data y_true ! (r * L + i)) [0..<n]"
      "map (\<lambda>r. data y_pred ! (r * L + i)) [0..<n]"]
  by (simp add: column_auc_def column_matrix)

lemma column_auc_single_class:
  assumes "shape y_pred = [n, L]" and "shape y_true = [n, L]" and "j < L"
    and "single_class y_true j"
  shows "column_auc y_pred y_true j = Inr NaN"
proof -
  let ?t = "map (\<lambda>r. data y_true ! (r * L + j)) [0..<n]"
  let ?p = "map (\<lambda>r. data y_pred ! (r * L + j)) [0..<n]"
  have ct: "column y_true j = Inr ?t" and cp: "column y_pred j = Inr ?p"
    using assms by (simp_all add: column_matrix)
  from assms(4) ct have "list_all (\<lambda>x. x = Fin 1) ?t \<or> list_all (\<lambda>x. x \<noteq> Fin 1) ?t"
    by (simp add: single_class_def)
  moreover have "length ?t = length ?p" by simp
  ultimately have "auc ?t ?p = Inr NaN" by (rule auc_single_class [rotated])
  with ct cp show ?thesis by (simp add: column_auc_def)
qed

lemma eval_columns_matrix:
  assumes "shape y_pred = [n, L]" and "shape y_true = [n, L]" and "length ls = L"
  shows "list_all (\<lambda>i. i < L) idxs \<Longrightarrow>
     \<exists>row. eval_columns y_pred y_true ls idxs acc = Inr (acc @ row) \<and>
           length row = length idxs \<and>
           (\<forall>k < length idxs. fst (row ! k) = ls ! (idxs ! k) @ ''_auc'' \<and>
                               column_auc y_pred y_true (idxs ! k) = Inr (snd (row ! k)))"
proof (induction idxs arbitrary: acc)
  case Nil
  then show ?case by simp
next
  case (Cons i idxs)
  then have i: "i < L" and rest: "list_all (\<lambda>i. i < L) idxs" by simp_all
  from column_auc_matrix [OF assms(1,2) i] obtain v where
    v: "column_auc y_pred y_true i = Inr v" by blast
  from Cons.IH [OF rest, of "acc @ [(ls ! i @ ''_auc'', v)]"] obtain row where
    row: "eval_columns y_pred y_true ls idxs (acc @ [(ls ! i @ ''_auc'', v)])
            = Inr ((acc @ [(ls ! i @ ''_auc'', v)]) @ row)"
      "length row = length idxs"
      "\<forall>k < length idxs. fst (row ! k) = ls ! (idxs ! k) @ ''_auc'' \<and>
                          column_auc y_pred y_true (idxs ! k) = Inr (snd (row ! k))"
    by blast
  let ?row = "(ls ! i @ ''_auc'', v) # row"
  have "eval_columns y_pred y_true ls (i # idxs) acc = Inr (acc @ ?row)"
    using v i assms(3) row(1) by simp
  moreover have "length ?row = length (i # idxs)" using row(2) by simp
  moreover have "\<forall>k < length (i # idxs). fst (?row ! k) = ls ! ((i # idxs) ! k) @ ''_auc'' \<and>
                          column_auc y_pred y_true ((i # idxs) ! k) = Inr (snd (?row ! k))"
  proof (intro allI impI)
    fix k assume "k < length (i # idxs)"
    then show "fst (?row ! k) = ls ! ((i # idxs) ! k) @ ''_auc'' \<and>
               column_auc y_pred y_true ((i # idxs) ! k) = Inr (snd (?row ! k))"
      using v row(3) by (cases k) auto
  qed
  ultimately show ?case by blast
qed

lemma evaluate_matrix:
  assumes "shape y_pred = [n, L]" and "shape y_true = [n, L]" and "length ls = L"
  shows "\<exists>row. evaluate y_pred y_true ls = Inr row \<and> length row = L \<and>
           (\<forall>i < L. fst (row ! i) = ls ! i @ ''_auc'' \<and>
                     column_auc y_pred y_true i = Inr (snd (row ! i)))"
proof -
  have "list_all (\<lambda>i. i < L) [0..<L]" by (simp add: list_all_iff)
  from eval_columns_matrix [OF assms this, of "[]"] obtain row where
    "eval_columns y_pred y_true ls [0..<L] [] = Inr row" "length row = L"
    "\<forall>k < L. fst (row ! k) = ls ! ([0..<L] ! k) @ ''_auc'' \<and>
              column_auc y_pred y_true ([0..<L] ! k) = Inr (snd (row ! k))"
    by auto
  with assms(1) show ?thesis by (auto simp: evaluate_def)
qed

lemma evaluate_scalar: "shape y_pred = [] \<Longrightarrow> evaluate y_pred y_true ls = Inl IndexError"
  by (simp add: evaluate_def)

lemma chunk_row:
  assumes "length d = n * L" and "r < n"
  shows "length (take L (drop (r * L) d)) = L"
    and "j < L \<Longrightarrow> take L (drop (r * L) d) ! j = d ! (r * L + j)"
proof -
  from assms(2) have "Suc r \<le> n" by simp
  then have "Suc r * L \<le> n * L" by (rule mult_le_mono1)
  then have le: "r * L + L \<le> length d" using assms(1) by simp
  then show "length (take L (drop (r * L) d)) = L" by simp
  assume "j < L"
  with le show "take L (drop (r * L) d) ! j = d ! (r * L + j)" by simp
qed

lemma take_rows_matrix:
  assumes sh: "shape a = [n, L]" and v: "valid_ndarray a"
    and ok: "list_all (\<lambda>r. r < n) sample"
  shows "\<exists>a'. take_rows a sample = Inr a' \<and> shape a' = [length sample, L] \<and>
           valid_ndarray a' \<and>
           (\<forall>j < L. column a' j = Inr (map (\<lambda>r. data a ! (r * L + j)) sample))"
proof -
  define chunks where "chunks = map (\<lambda>r. take L (drop (r * L) (data a))) sample"
  define a' where "a' = \<lparr>shape = [length sample, L], data = concat chunks\<rparr>"
  from sh v have len: "length (data a) = n * L" by (simp add: valid_ndarray_def)
  from ok have inb: "\<And>r. r \<in> set sample \<Longrightarrow> r < n" by (simp add: list_all_iff)
  have tr: "take_rows a sample = Inr a'"
    using sh ok by (simp add: take_rows_def a'_def chunks_def)
  have sh': "shape a' = [length sample, L]" by (simp add: a'_def)
  have lc: "length chunks = length sample" by (simp add: chunks_def)
  have uni: "\<forall>x\<in>set chunks. length x = L"
  proof
    fix x assume "x \<in> set chunks"
    then obtain r where r: "r \<in> set sample" and x: "x = take L (drop (r * L) (data a))"
      by (auto simp: chunks_def)
    from chunk_row(1) [OF len inb [OF r]] x show "length x = L" by simp
  qed
  have "length (concat chunks) = length sample * L"
    using length_concat_uniform [OF uni] lc by simp
  then have va: "valid_ndarray a'" by (simp add: valid_ndarray_def a'_def)
  have col: "\<forall>j < L. column a' j = Inr (map (\<lambda>r. data a ! (r * L + j)) sample)"
  proof (intro allI impI)
    fix j assume j: "j < L"
    have "map (\<lambda>k. concat chunks ! (k * L + j)) [0..<length sample]
            = map (\<lambda>k. data a ! (sample ! k * L + j)) [0..<length sample]"
    proof (rule map_cong [OF refl])
      fix k assume "k \<in> set [0..<length sample]"
      then have k: "k < length sample" by simp
      then have "concat chunks ! (k * L + j) = chunks ! k ! j"
        using uni j lc by (intro concat_nth_uniform) simp_all
      also have "chunks ! k = take L (drop (sample ! k * L) (data a))"
        using k by (simp add: chunks_def)
      also have "\<dots> ! j = data a ! (sample ! k * L + j)"
        using k j inb by (intro chunk_row(2) [OF len]) simp_all
      finally show "concat chunks ! (k * L + j) = data a ! (sample ! k * L + j)" .
    qed
    also have "\<dots> = map (\<lambda>r. data a ! (r * L + j)) sample"
      by (rule map_index)
    finally have "map (\<lambda>k. data a' ! (k * L + j)) [0..<length sample]
        = map (\<lambda>r. data a ! (r * L + j)) sample" by (simp add: a'_def)
    with j sh' show "column a' j = Inr (map (\<lambda>r. data a ! (r * L + j)) sample)"
      by (simp add: column_def)
  qed
  from tr sh' va col show ?thesis by blast
qed

lemma single_class_rows:
  assumes "shape a = [n, L]" and "j < L" and "single_class a j"
    and "list_all (\<lambda>r. r < n) sample"
    and "shape a' = [k, L]"
    and "column a' j = Inr (map (\<lambda>r. data a ! (r * L + j)) sample)"
  shows "single_class a' j"
proof -
  have "column a j = Inr (map (\<lambda>r. data a ! (r * L + j)) [0..<n])"
    using assms(1,2) by (rule column_matrix)
  with assms(3) have
    "(\<forall>r<n. data a ! (r * L + j) = Fin 1) \<or> (\<forall>r<n. data a ! (r * L + j) \<noteq> Fin 1)"
    by (auto simp: single_class_def list_all_iff)
  moreover from assms(4) have "\<forall>r\<in>set sample. r < n" by (simp add: list_all_iff)
  ultimately show ?thesis using assms(6) by (auto simp: single_class_def list_all_iff)
qed

lemma draw_indices_bounded:
  "0 < n \<Longrightarrow> list_all (\<lambda>r. r < n) (fst (draw_indices rng_next n k g))"
proof (induction k arbitrary: g)
  case 0
  show ?case by simp
next
  case (Suc k)
  obtain r g1 where a: "rng_next g = (r, g1)" by (cases "rng_next g")
  obtain s g2 where b: "draw_indices rng_next n k g1 = (s, g2)"
    by (cases "draw_indices rng_next n k g1")
  from Suc.IH [OF Suc.prems, of g1] b have "list_all (\<lambda>r. r < n) s" by simp
  with a b Suc.prems show ?case by simp
qed

lemma draw_indices_length: "length (fst (draw_indices rng_next n k g)) = k"
proof (induction k arbitrary: g)
  case 0
  show ?case by simp
next
  case (Suc k)
  obtain r g1 where a: "rng_next g = (r, g1)" by (cases "rng_next g")
  obtain s g2 where b: "draw_indices rng_next n k g1 = (s, g2)"
    by (cases "draw_indices rng_next n k g1")
  from Suc.IH [of g1] b have "length s = k" by simp
  with a b show ?case by simp
qed

lemma draw_sample:
  "list_all (\<lambda>r. r < n) (fst (draw_indices rng_next n n g)) \<and>
   length (fst (draw_indices rng_next n n g)) = n"
proof (cases "n = 0")
  case True
  then show ?thesis by simp
next
  case False
  then show ?thesis by (simp add: draw_indices_bounded draw_indices_length)
qed

lemma boot_loop_single_class:
  assumes sp: "shape y_pred = [n, L]" and st: "shape y_true = [n, L]"
    and vp: "valid_ndarray y_pred" and vt: "valid_ndarray y_true"
    and ll: "length ls = L" and j: "j < L" and sc: "single_class y_true j"
  shows "\<exists>rows g'. boot_loop rng_next y_pred y_true ls n N g acc = (Inr (acc @ rows), g') \<and>
           length rows = N \<and> list_all (nan_row ls L j) rows"
proof (induction N arbitrary: g acc)
  case 0
  show ?case by simp
next
  case (Suc N)
  obtain sample g1 where dr: "draw_indices rng_next n n g = (sample, g1)"
    by (cases "draw_indices rng_next n n g")
  with draw_sample [of n rng_next g] have ok: "list_all (\<lambda>r. r < n) sample"
    and ln: "length sample = n" by simp_all
  from take_rows_matrix [OF sp vp ok] ln obtain ps where
    ps: "take_rows y_pred sample = Inr ps" "shape ps = [n, L]" by auto
  from take_rows_matrix [OF st vt ok] ln j obtain ts where
    ts: "take_rows y_true sample = Inr ts" "shape ts = [n, L]"
      "column ts j = Inr (map (\<lambda>r. data y_true ! (r * L + j)) sample)" by auto
  from single_class_rows [OF st j sc ok ts(2) ts(3)] have sc': "single_class ts j" .
  from evaluate_matrix [OF ps(2) ts(2) ll] obtain row where
    row: "evaluate ps ts ls = Inr row" "length row = L"
      "\<forall>i < L. fst (row ! i) = ls ! i @ ''_auc'' \<and> column_auc ps ts i = Inr (snd (row ! i))"
    by blast
  from column_auc_single_class [OF ps(2) ts(2) j sc'] row(3) j
  have "fst (row ! j) = ls ! j @ ''_auc''" and "snd (row ! j) = NaN" by auto
  then have "row ! j = (ls ! j @ ''_auc'', NaN)" by (simp add: prod_eq_iff)
  with row(2) have nr: "nan_row ls L j row" by (simp add: nan_row_def)
  from Suc.IH [of g1 "acc @ [row]"] obtain rows g' where
    rows: "boot_loop rng_next y_pred y_true ls n N g1 (acc @ [row]) = (Inr ((acc @ [row]) @ rows), g')"
      "length rows = N" "list_all (nan_row ls L j) rows" by blast
  have "boot_loop rng_next y_pred y_true ls n (Suc N) g acc = (Inr (acc @ (row # rows)), g')"
    using dr ps(1) ts(1) row(1) rows(1) by simp
  moreover have "length (row # rows) = Suc N" using rows(2) by simp
  moreover have "list_all (nan_row ls L j) (row # rows)" using nr rows(3) by simp
  ultimately show ?case by blast
qed

lemma fadd_NaN_right: "fadd rnd a NaN = NaN"
  by (cases a) simp_all

lemma foldl_fadd_NaN: "foldl (fadd rnd) NaN vs = NaN"
  by (induction vs) simp_all

lemma foldl_fadd_has_NaN: "NaN \<in> set vs \<Longrightarrow> foldl (fadd rnd) a vs = NaN"
proof (induction vs arbitrary: a)
  case Nil
  then show ?case by simp
next
  case (Cons v vs)
  show ?case
  proof (cases "v = NaN")
    case True
    then show ?thesis by (simp add: fadd_NaN_right foldl_fadd_NaN)
  next
    case False
    with Cons.prems have "NaN \<in> set vs" by simp
    then show ?thesis by (simp add: Cons.IH)
  qed
qed

lemma fsum_NaN: "NaN \<in> set vs \<Longrightarrow> fsum rnd vs = NaN"
proof (cases vs)
  case Nil
  assume "NaN \<in> set vs"
  with Nil show ?thesis by simp
next
  case (Cons v rest)
  assume h: "NaN \<in> set vs"
  show ?thesis
  proof (cases "v = NaN")
    case True
    with Cons show ?thesis by (simp add: fsum_def foldl_fadd_NaN)
  next
    case False
    with h Cons have "NaN \<in> set rest" by simp
    with Cons show ?thesis by (simp add: fsum_def foldl_fadd_has_NaN)
  qed
qed

lemma mean_of_NaN: "NaN \<in> set vs \<Longrightarrow> mean_of rnd vs = NaN"
  by (simp add: mean_of_def fsum_NaN fdiv_count_def)

lemma percentile_NaN: "NaN \<in> set vs \<Longrightarrow> percentile vs q = NaN"
  by (simp add: percentile_def)

lemma summarize_nan_column:
  assumes "rows \<noteq> []" and "list_all (nan_row ls L j) rows" and "j < L"
  shows "length (summarize rnd rows c) = L \<and>
         summarize rnd rows c ! j = (ls ! j @ ''_auc'', NaN, NaN, NaN)"
proof -
  from assms(1) obtain first rest where rows: "rows = first # rest" by (cases rows) auto
  with assms(2) have first: "length first = L" "first ! j = (ls ! j @ ''_auc'', NaN)"
    by (simp_all add: nan_row_def)
  define col where "col = (\<lambda>i. map (\<lambda>row. snd (row ! i)) rows)"
  define entry where "entry = (\<lambda>i. (fst (first ! i), mean_of rnd (col i),
      percentile (col i) ((1 - c) / 2), percentile (col i) (1 - (1 - c) / 2)))"
  have sm: "summarize rnd rows c = map entry [0..<L]"
    unfolding summarize_def rows entry_def col_def Let_def using first(1) by simp
  have "snd (first ! j) \<in> set (col j)" unfolding col_def rows by simp
  with first(2) have nan: "NaN \<in> set (col j)" by simp
  have "entry j = (ls ! j @ ''_auc'', NaN, NaN, NaN)"
    unfolding entry_def using first(2) mean_of_NaN [OF nan] percentile_NaN [OF nan] by simp
  with sm assms(3) show ?thesis by simp
qed

section \<open>The claims on the evaluator\<close>

text \<open>
  C2, as stated, fails. The average of an empty ensemble is a 0-dimensional array; given
  to \<open>evaluate\<close> with two labels it is not refused with a dimension-mismatch error:
  reading \<open>y_pred.shape[-1]\<close> raises \<open>IndexError\<close>, the crash the notebook recorded.
\<close>

theorem evaluate_scalar_counterexample:
  "evaluate nan_scalar spec_true [''A'', ''B''] = Inl IndexError"
  by (simp add: evaluate_def nan_scalar_def)

text \<open>
  C2, amended. A 0-dimensional prediction array is not refused with a dimension-mismatch
  error: \<open>evaluate\<close> raises \<open>IndexError\<close> on it. For a prediction matrix and a
  ground-truth matrix of one shape, with as many rows in the one as in the other and one
  column per label, it returns a table with exactly one column per label, named after
  the labels.
\<close>

theorem evaluate_scalar_and_matching:
  "(shape y_pred = [] \<longrightarrow> evaluate y_pred y_true cxr_labels = Inl IndexError) \<and>
   (shape y_pred = [n, length cxr_labels] \<and> shape y_true = [n, length cxr_labels] \<longrightarrow>
      (\<exists>row. evaluate y_pred y_true cxr_labels = Inr row \<and>
             length row = length cxr_labels \<and>
             map fst row = map (\<lambda>l. l @ ''_auc'') cxr_labels))"
proof (intro conjI impI)
  assume "shape y_pred = []"
  then show "evaluate y_pred y_true cxr_labels = Inl IndexError" by (rule evaluate_scalar)
next
  assume a: "shape y_pred = [n, length cxr_labels] \<and> shape y_true = [n, length cxr_labels]"
  then have sp: "shape y_pred = [n, length cxr_labels]"
    and st: "shape y_true = [n, length cxr_labels]" by simp_all
  from evaluate_matrix [OF sp st refl] obtain row where
    row: "evaluate y_pred y_true cxr_labels = Inr row" "length row = length cxr_labels"
      "\<forall>i < length cxr_labels. fst (row ! i) = cxr_labels ! i @ ''_auc''"
    by blast
  have "map fst row = map (\<lambda>l. l @ ''_auc'') cxr_labels"
    using row(2,3) by (intro nth_equalityI) simp_all
  with row(1,2) show "\<exists>row. evaluate y_pred y_true cxr_labels = Inr row \<and>
             length row = length cxr_labels \<and>
             map fst row = map (\<lambda>l. l @ ''_auc'') cxr_labels" by blast
qed

text \<open>
  C2, amended, at the 0-dimensional not-a-number and at the example matrices of the
  specification, whose AUC is 1 for both labels.
\<close>

theorem evaluate_scalar_and_matching_witness:
  "shape nan_scalar = [] \<and>
   evaluate nan_scalar spec_true [''A'', ''B''] = Inl IndexError \<and>
   shape spec_pred = [3, length [''A'', ''B'']] \<and>
   shape spec_true = [3, length [''A'', ''B'']] \<and>
   (\<exists>row. evaluate spec_pred spec_true [''A'', ''B''] = Inr row \<and>
          length row = length [''A'', ''B''] \<and>
          map fst row = map (\<lambda>l. l @ ''_auc'') [''A'', ''B'']) \<and>
   evaluate spec_pred spec_true [''A'', ''B''] = Inr [(''A_auc'', Fin 1), (''B_auc'', Fin 1)]"
proof -
  have h1: "shape nan_scalar = []" by (simp add: nan_scalar_def)
  have h2: "shape spec_pred = [3, length [''A'', ''B'']]" by (simp add: spec_pred_def)
  have h3: "shape spec_true = [3, length [''A'', ''B'']]" by (simp add: spec_true_def)
  from h1 evaluate_scalar_and_matching [of nan_scalar spec_true "[''A'', ''B'']" 3]
  have a: "evaluate nan_scalar spec_true [''A'', ''B''] = Inl IndexError" by blast
  from h2 h3 evaluate_scalar_and_matching [of spec_pred spec_true "[''A'', ''B'']" 3]
  have b: "\<exists>row. evaluate spec_pred spec_true [''A'', ''B''] = Inr row \<and>
          length row = length [''A'', ''B''] \<and>
          map fst row = map (\<lambda>l. l @ ''_auc'') [''A'', ''B'']" by blast
  have c: "evaluate spec_pred spec_true [''A'', ''B'']
      = Inr [(''A_auc'', Fin 1), (''B_auc'', Fin 1)]"
    by code_simp
  from h1 h2 h3 a b c show ?thesis by blast
qed

text \<open>
  C6. When a ground-truth column holds one class only, \<open>evaluate\<close> raises nothing: it
  returns the full table, with the sentinel \<open>NaN\<close> in that column and the AUC of every
  other column as computed for it. \<open>bootstrap\<close> raises nothing either: every resampled
  row has \<open>NaN\<close> in that column, and the mean, the lower and the upper bound of that
  column in the summary are \<open>NaN\<close>.
\<close>

theorem single_class_auc_is_nan:
  assumes "shape y_pred = [n, L]" and "shape y_true = [n, L]"
    and "valid_ndarray y_pred" and "valid_ndarray y_true"
    and "length cxr_labels = L" and "j < L" and "single_class y_true j"
  shows "(\<exists>row. evaluate y_pred y_true cxr_labels = Inr row \<and> length row = L \<and>
            row ! j = (cxr_labels ! j @ ''_auc'', NaN) \<and>
            (\<forall>i < L. column_auc y_pred y_true i = Inr (snd (row ! i)))) \<and>
    (0 < n_iterations \<longrightarrow>
       (\<exists>boot_stats summ g'.
          bootstrap rnd rng_seed rng_next y_pred y_true cxr_labels n_iterations confidence
            seed ambient = (Inr (boot_stats, summ), g') \<and>
          length boot_stats = n_iterations \<and>
          list_all (\<lambda>row. row ! j = (cxr_labels ! j @ ''_auc'', NaN)) boot_stats \<and>
          length summ = L \<and>
          summ ! j = (cxr_labels ! j @ ''_auc'', NaN, NaN, NaN)))"
proof (intro conjI impI)
  from evaluate_matrix [OF assms(1,2,5)] obtain row where
    row: "evaluate y_pred y_true cxr_labels = Inr row" "length row = L"
      "\<forall>i < L. fst (row ! i) = cxr_labels ! i @ ''_auc'' \<and>
                column_auc y_pred y_true i = Inr (snd (row ! i))"
    by blast
  from column_auc_single_class [OF assms(1,2,6,7)] row(3) assms(6)
  have "fst (row ! j) = cxr_labels ! j @ ''_auc''" and "snd (row ! j) = NaN" by auto
  then have "row ! j = (cxr_labels ! j @ ''_auc'', NaN)" by (simp add: prod_eq_iff)
  with row show "\<exists>row. evaluate y_pred y_true cxr_labels = Inr row \<and> length row = L \<and>
            row ! j = (cxr_labels ! j @ ''_auc'', NaN) \<and>
            (\<forall>i < L. column_auc y_pred y_true i = Inr (snd (row ! i)))" by blast
next
  assume pos: "0 < n_iterations"
  define g0 where "g0 = (case seed of Some s \<Rightarrow> rng_seed s | None \<Rightarrow> ambient)"
  from boot_loop_single_class [OF assms, of rng_next n_iterations g0 "[]"]
  obtain rows g1 where
    bl: "boot_loop rng_next y_pred y_true cxr_labels n n_iterations g0 [] = (Inr rows, g1)"
    and ln: "length rows = n_iterations"
    and nr: "list_all (nan_row cxr_labels L j) rows" by auto
  from ln pos have ne: "rows \<noteq> []" by auto
  from summarize_nan_column [OF ne nr assms(6), of rnd confidence]
  have sm: "length (summarize rnd rows confidence) = L"
    "summarize rnd rows confidence ! j = (cxr_labels ! j @ ''_auc'', NaN, NaN, NaN)"
    by simp_all
  from nr have nanj: "list_all (\<lambda>row. row ! j = (cxr_labels ! j @ ''_auc'', NaN)) rows"
    by (simp add: list_all_iff nan_row_def)
  have "bootstrap rnd rng_seed rng_next y_pred y_true cxr_labels n_iterations confidence
          seed ambient
        = (Inr (rows, summarize rnd rows confidence),
           case seed of Some s \<Rightarrow> ambient | None \<Rightarrow> g1)"
    using assms(1) bl by (simp add: bootstrap_def g0_def Let_def)
  with ln nanj sm show "\<exists>boot_stats summ g'.
          bootstrap rnd rng_seed rng_next y_pred y_true cxr_labels n_iterations confidence
            seed ambient = (Inr (boot_stats, summ), g') \<and>
          length boot_stats = n_iterations \<and>
          list_all (\<lambda>row. row ! j = (cxr_labels ! j @ ''_auc'', NaN)) boot_stats \<and>
          length summ = L \<and>
          summ ! j = (cxr_labels ! j @ ''_auc'', NaN, NaN, NaN)" by blast
qed

text \<open>C6 at a ground truth whose first column is all ones.\<close>

theorem single_class_auc_is_nan_witness:
  "shape spec_pred = [3, 2] \<and> shape ones_true = [3, 2] \<and>
   valid_ndarray spec_pred \<and> valid_ndarray ones_true \<and>
   length [''A'', ''B''] = 2 \<and> (0::nat) < 2 \<and> single_class ones_true 0 \<and>
   evaluate spec_pred ones_true [''A'', ''B''] = Inr [(''A_auc'', NaN), (''B_auc'', Fin 1)] \<and>
   (0::nat) < 3 \<and>
   (\<exists>boot_stats summ g'.
      bootstrap exact_rounding lcg_seed lcg_next spec_pred ones_true [''A'', ''B''] 3 (95 / 100) (Some 7)
        (0::nat) = (Inr (boot_stats, summ), g') \<and>
      length boot_stats = 3 \<and>
      list_all (\<lambda>row. row ! 0 = ([''A'', ''B''] ! 0 @ ''_auc'', NaN)) boot_stats \<and>
      length summ = 2 \<and>
      summ ! 0 = ([''A'', ''B''] ! 0 @ ''_auc'', NaN, NaN, NaN))"
proof -
  have h1: "shape spec_pred = [3, 2]" by (simp add: spec_pred_def)
  have h2: "shape ones_true = [3, 2]" by (simp add: ones_true_def)
  have h3: "valid_ndarray spec_pred" by (simp add: spec_pred_def valid_ndarray_def)
  have h4: "valid_ndarray ones_true" by (simp add: ones_true_def valid_ndarray_def)
  have h5: "length [''A'', ''B''] = 2" by simp
  have h6: "(0::nat) < 2" by simp
  have h7: "single_class ones_true 0" by code_simp
  have h8: "(0::nat) < 3" by simp
  have v: "evaluate spec_pred ones_true [''A'', ''B''] = Inr [(''A_auc'', NaN), (''B_auc'', Fin 1)]"
    by code_simp
  note T = single_class_auc_is_nan [OF h1 h2 h3 h4 h5 h6 h7, of 3 exact_rounding
      lcg_seed lcg_next
      "95 / 100" "Some 7" 0]
  from T h8 have "\<exists>boot_stats summ g'.
      bootstrap exact_rounding lcg_seed lcg_next spec_pred ones_true [''A'', ''B''] 3 (95 / 100) (Some 7)
        (0::nat) = (Inr (boot_stats, summ), g') \<and>
      length boot_stats = 3 \<and>
      list_all (\<lambda>row. row ! 0 = ([''A'', ''B''] ! 0 @ ''_auc'', NaN)) boot_stats \<and>
      length summ = 2 \<and>
      summ ! 0 = ([''A'', ''B''] ! 0 @ ''_auc'', NaN, NaN, NaN)" by blast
  with h1 h2 h3 h4 h5 h6 h7 h8 v show ?thesis by blast
qed

end
